theory Spec2Isabelle
  imports Complex_Main "HOL-Library.Multiset"
begin

section \<open>Python strings\<close>

text \<open>
  A Python \<open>str\<close> is a sequence of Unicode code points; a code point is held as its number.
  \<open>str\<close> turns a literal into that form, so that \<open>str ''a=b''\<close> is \<open>[97, 61, 98]\<close>.
  Single characters are written as their numbers:
  tab 9, line feed 10, carriage return 13, space 32, \<open>#\<close> 35, \<open>%\<close> 37, \<open>'\<close> 39,
  \<open>;\<close> 59, \<open>=\<close> 61, backslash 92, \<open>d\<close> 100, \<open>n\<close> 110, \<open>s\<close> 115, \<open>{\<close> 123, \<open>}\<close> 125,
  the byte-order mark U+FEFF 65279, the surrogates U+D800..U+DFFF 55296..57343.
\<close>

type_synonym pystr = "nat list"

definition str :: "string \<Rightarrow> pystr" where
  "str s = map of_char s"

text \<open>\<open>str.isspace\<close> of one character: the code points CPython's Unicode database marks as whitespace.\<close>

definition isspace :: "nat \<Rightarrow> bool" where
  "isspace c \<longleftrightarrow>
     (9 \<le> c \<and> c \<le> 13) \<or> (28 \<le> c \<and> c \<le> 32) \<or> c = 133 \<or> c = 160 \<or> c = 5760 \<or>
     (8192 \<le> c \<and> c \<le> 8202) \<or> c = 8232 \<or> c = 8233 \<or> c = 8239 \<or> c = 8287 \<or> c = 12288"

definition lstrip :: "pystr \<Rightarrow> pystr" where
  "lstrip s = dropWhile isspace s"

definition rstrip :: "pystr \<Rightarrow> pystr" where
  "rstrip s = rev (dropWhile isspace (rev s))"

text \<open>\<open>s.strip()\<close>: leading and trailing whitespace removed.\<close>

definition strip :: "pystr \<Rightarrow> pystr" where
  "strip s = rstrip (lstrip s)"

text \<open>\<open>s.startswith(p)\<close>.\<close>

fun startswith :: "pystr \<Rightarrow> pystr \<Rightarrow> bool" where
  "startswith s [] = True"
| "startswith [] (p # ps) = False"
| "startswith (c # cs) (p # ps) = (c = p \<and> startswith cs ps)"

text \<open>\<open>sub in s\<close> for strings: \<open>sub\<close> occurs in \<open>s\<close> as a contiguous run.\<close>

fun contains :: "pystr \<Rightarrow> pystr \<Rightarrow> bool" where
  "contains [] sub = (sub = [])"
| "contains (c # cs) sub = (startswith (c # cs) sub \<or> contains cs sub)"

text \<open>\<open>s.partition('=')\<close>: the text before the first \<open>=\<close> and the text after it
  (both components of the source's triple that the parser keeps).\<close>

definition partition_eq :: "pystr \<Rightarrow> pystr \<times> pystr" where
  "partition_eq s = (takeWhile (\<lambda>c. c \<noteq> 61) s, tl (dropWhile (\<lambda>c. c \<noteq> 61) s))"

text \<open>The decimal rendering of a length inside an f-string.\<close>

function str_nat :: "nat \<Rightarrow> pystr" where
  "str_nat n = (if n < 10 then [48 + n] else str_nat (n div 10) @ [48 + n mod 10])"
  by pat_completeness auto
termination
  by (relation "measure id") auto

text \<open>
  \<open>s.encode('utf-8')\<close> succeeds exactly when \<open>s\<close> holds no surrogate code point.
\<close>

definition is_surrogate :: "nat \<Rightarrow> bool" where
  "is_surrogate c \<longleftrightarrow> 55296 \<le> c \<and> c \<le> 57343"

definition encodable :: "pystr \<Rightarrow> bool" where
  "encodable s = list_all (\<lambda>c. \<not> is_surrogate c) s"

section \<open>Data model\<close>

datatype ValidationLevel = ERROR | WARNING | INFO

record ValidationResult =
  level :: ValidationLevel
  message :: pystr
  key :: "pystr option"

record Translation =
  key :: pystr
  original :: pystr
  translated :: pystr
  category :: pystr
  comment :: pystr

text \<open>
  Two renderings belong to the Python runtime and not to the program: the \<open>repr\<close> of a set
  of strings (its element order follows the string hashes of the running interpreter) and
  the text of a \<open>UnicodeEncodeError\<close>. The validator takes them as parameters.
\<close>

record runtime =
  repr_set :: "pystr set \<Rightarrow> pystr"
  encode_error_text :: "pystr \<Rightarrow> pystr"

section \<open>TranslationValidator\<close>

text \<open>
  \<open>re.findall(r'\{[^}]+\}|%[sd]', s)\<close>: the non-overlapping matches, scanning from the
  left. At an opening brace the class \<open>[^}]+\<close> takes every character up to the next closing
  brace; the match needs at least one such character and the closing brace itself, and no
  shorter choice for the class can succeed where the longest fails. At a percent sign the
  match needs \<open>s\<close> or \<open>d\<close> next. Where no alternative matches, the scan moves on by one
  character.
\<close>

function findall_vars :: "pystr \<Rightarrow> pystr list" where
  "findall_vars [] = []"
| "findall_vars (c # cs) =
    (if c = 123 then
       (if takeWhile (\<lambda>x. x \<noteq> 125) cs \<noteq> [] \<and> dropWhile (\<lambda>x. x \<noteq> 125) cs \<noteq> []
        then (c # takeWhile (\<lambda>x. x \<noteq> 125) cs @ [125])
               # findall_vars (tl (dropWhile (\<lambda>x. x \<noteq> 125) cs))
        else findall_vars cs)
     else if c = 37 then
       (case cs of
          [] \<Rightarrow> findall_vars cs
        | d # ds \<Rightarrow> if d = 115 \<or> d = 100 then [c, d] # findall_vars ds else findall_vars cs)
     else findall_vars cs)"
  by pat_completeness auto
termination
proof (relation "measure length")
  fix c :: nat and cs :: "nat list"
  have "length (tl (dropWhile (\<lambda>x. x \<noteq> 125) cs)) \<le> length cs"
    using length_dropWhile_le [of "\<lambda>x. x \<noteq> 125" cs] by simp
  then show "(tl (dropWhile (\<lambda>x. x \<noteq> 125) cs), c # cs) \<in> measure length"
    by simp
qed auto

text \<open>The message of the variable check, built up as the source does.\<close>

definition variables_msg :: "runtime \<Rightarrow> pystr \<Rightarrow> pystr set \<Rightarrow> pystr set \<Rightarrow> pystr" where
  "variables_msg rt k missing extra =
     (let msg = str ''Variable mismatch in '' @ [39] @ k @ [39];
          msg = (if missing \<noteq> {} then msg @ [10] @ str ''  Missing: '' @ repr_set rt missing else msg);
          msg = (if extra \<noteq> {} then msg @ [10] @ str ''  Extra: '' @ repr_set rt extra else msg)
      in msg)"

definition check_variables :: "runtime \<Rightarrow> Translation \<Rightarrow> pystr \<Rightarrow> ValidationResult list" where
  "check_variables rt tr orig =
     (let original_vars = set (findall_vars orig);
          translated_vars = set (findall_vars (translated tr))
      in if original_vars \<noteq> translated_vars
         then [\<lparr>level = ERROR,
                message = variables_msg rt (Translation.key tr)
                            (original_vars - translated_vars) (translated_vars - original_vars),
                key = Some (Translation.key tr)\<rparr>]
         else [])"

text \<open>
  \<open>len(trans.translated) > len(original) * 1.5\<close>. Python compares the integer with the
  float product exactly, and the product itself is exact in binary64 for every length below
  \<open>2^52\<close>, far beyond any string that fits in memory; the model computes with reals.
\<close>

definition length_msg :: "pystr \<Rightarrow> nat \<Rightarrow> nat \<Rightarrow> pystr" where
  "length_msg k lt lo =
     [39] @ k @ [39] @ str '' is much longer ('' @ str_nat lt @ str '' vs '' @ str_nat lo
       @ str '' chars) - may not fit in UI''"

definition check_length :: "Translation \<Rightarrow> pystr \<Rightarrow> ValidationResult list" where
  "check_length tr orig =
     (if real (length (translated tr)) > real (length orig) * 1.5
      then [\<lparr>level = WARNING,
             message = length_msg (Translation.key tr) (length (translated tr)) (length orig),
             key = Some (Translation.key tr)\<rparr>]
      else [])"

definition check_special_chars :: "Translation \<Rightarrow> ValidationResult list" where
  "check_special_chars tr =
     (if contains (translated tr) [92, 110] \<or> contains (translated tr) [10]
      then [\<lparr>level = INFO,
             message = [39] @ Translation.key tr @ [39] @ str '' contains newlines - verify formatting'',
             key = Some (Translation.key tr)\<rparr>]
      else [])"

definition check_encoding :: "runtime \<Rightarrow> Translation \<Rightarrow> ValidationResult list" where
  "check_encoding rt tr =
     (if encodable (translated tr) then []
      else [\<lparr>level = ERROR,
             message = [39] @ Translation.key tr @ [39]
                         @ str '' contains character that can't be encoded: ''
                         @ encode_error_text rt (translated tr),
             key = Some (Translation.key tr)\<rparr>])"

text \<open>\<open>validate\<close>: the list \<open>results\<close> is extended by each check in turn.\<close>

definition validate :: "runtime \<Rightarrow> Translation \<Rightarrow> pystr \<Rightarrow> ValidationResult list" where
  "validate rt translation original_value =
     (let results = [];
          results = results @ check_variables rt translation original_value;
          results = results @ check_length translation original_value;
          results = results @ check_special_chars translation;
          results = results @ check_encoding rt translation
      in results)"

section \<open>The localization file as a dictionary\<close>

text \<open>
  A Python \<open>dict\<close> keeps its keys in insertion order, and \<open>write\<close> emits them in that
  order: it is an association list whose keys are distinct. Storing under a key that is
  present replaces the value in place; a new key goes to the end.
\<close>

type_synonym dict = "(pystr \<times> pystr) list"

fun dict_set :: "dict \<Rightarrow> pystr \<Rightarrow> pystr \<Rightarrow> dict" where
  "dict_set [] k v = [(k, v)]"
| "dict_set ((k', v') # d) k v = (if k' = k then (k', v) # d else (k', v') # dict_set d k v)"

definition dict_in :: "pystr \<Rightarrow> dict \<Rightarrow> bool" where
  "dict_in k d \<longleftrightarrow> k \<in> set (map fst d)"

definition dict_get :: "dict \<Rightarrow> pystr \<Rightarrow> pystr \<Rightarrow> pystr" where
  "dict_get d k dflt = (case map_of d k of None \<Rightarrow> dflt | Some v \<Rightarrow> v)"

section \<open>Files\<close>

text \<open>
  A file is held as the code points its bytes decode to under UTF-8, or as \<open>Not_UTF8 n\<close> when
  they do not decode, \<open>n\<close> being the number of lines a reader gets before the decoder meets
  the bad bytes. The file system maps a path to the file there. Directories, permissions
  and the other failures of the operating system are left out.
\<close>

datatype file_data = Text pystr | Not_UTF8 nat

type_synonym filesystem = "pystr \<rightharpoonup> file_data"

datatype error = FileNotFoundError | UnicodeDecodeError | UnicodeEncodeError

text \<open>The codec \<open>utf-8-sig\<close> drops a byte-order mark at the start of the file.\<close>

fun strip_bom :: "pystr \<Rightarrow> pystr" where
  "strip_bom [] = []"
| "strip_bom (c # cs) = (if c = 65279 then cs else c # cs)"

text \<open>Reading in text mode with the default \<open>newline=None\<close>: \<open>\r\n\<close> and a lone \<open>\r\<close>
  arrive as \<open>\n\<close>.\<close>

fun universal_newlines :: "pystr \<Rightarrow> pystr" where
  "universal_newlines [] = []"
| "universal_newlines [c] = [if c = 13 then 10 else c]"
| "universal_newlines (c # d # cs) =
     (if c = 13 \<and> d = 10 then 10 # universal_newlines cs
      else if c = 13 then 10 # universal_newlines (d # cs)
      else c # universal_newlines (d # cs))"

text \<open>Iterating over the file: each line ends with its \<open>\n\<close>, the last one may lack it.\<close>

fun lines_from :: "pystr \<Rightarrow> pystr \<Rightarrow> pystr list" where
  "lines_from cur [] = (if cur = [] then [] else [cur])"
| "lines_from cur (c # cs) =
     (if c = 10 then (cur @ [10]) # lines_from [] cs else lines_from (cur @ [c]) cs)"

definition readlines :: "pystr \<Rightarrow> pystr list" where
  "readlines text = lines_from [] text"

text \<open>Writing with \<open>newline='\r\n'\<close>: every \<open>\n\<close> written goes out as \<open>\r\n\<close>.\<close>

definition write_newlines :: "pystr \<Rightarrow> pystr" where
  "write_newlines s = concat (map (\<lambda>c. if c = 10 then [13, 10] else [c]) s)"

section \<open>INIParser\<close>

text \<open>The body of the loop of \<open>parse\<close> for one line.\<close>

definition parse_line :: "dict \<Rightarrow> pystr \<Rightarrow> dict" where
  "parse_line data raw =
     (let line = strip raw in
      if line = [] \<or> startswith line [35] \<or> startswith line [59] then data
      else if contains line [61] then
        (let key = strip (fst (partition_eq line));
             val = strip (snd (partition_eq line))
         in if key \<noteq> [] then dict_set data key val else data)
      else data)"

definition parse_text :: "pystr \<Rightarrow> dict" where
  "parse_text text = foldl parse_line [] (readlines text)"

definition parse :: "filesystem \<Rightarrow> pystr \<Rightarrow> error + dict" where
  "parse fs file_path =
     (case fs file_path of
        None \<Rightarrow> Inl FileNotFoundError
      | Some (Not_UTF8 n) \<Rightarrow> Inl UnicodeDecodeError
      | Some (Text t) \<Rightarrow> Inr (parse_text (universal_newlines (strip_bom t))))"

text \<open>The invariant of the key-value store: keys unique, non-empty and trimmed.\<close>

definition kv_invariant :: "dict \<Rightarrow> bool" where
  "kv_invariant d \<longleftrightarrow> distinct (map fst d) \<and> (\<forall>k \<in> set (map fst d). k \<noteq> [] \<and> strip k = k)"

text \<open>
  The loop of \<open>write\<close> (here \<open>write_ini\<close>): each \<open>f.write\<close> encodes its line at once, so a line that holds a
  surrogate raises there, and the lines before it have reached the file.
  The result is the text written and whether the loop ran to its end.
\<close>

fun write_loop :: "pystr \<Rightarrow> dict \<Rightarrow> pystr \<times> bool" where
  "write_loop out [] = (out, True)"
| "write_loop out ((k, v) # d) =
     (if encodable (k @ [61] @ v @ [10])
      then write_loop (out @ write_newlines (k @ [61] @ v @ [10])) d
      else (out, False))"

definition write_ini :: "filesystem \<Rightarrow> pystr \<Rightarrow> dict \<Rightarrow> filesystem \<times> (error + unit)" where
  "write_ini fs file_path data =
     (let (out, ok) = write_loop [] data
      in (fs(file_path \<mapsto> Text out), if ok then Inr () else Inl UnicodeEncodeError))"

text \<open>The text a completed \<open>write\<close> leaves in the file, and the condition under which every
  line encodes.\<close>

definition serialize :: "dict \<Rightarrow> pystr" where
  "serialize d = concat (map (\<lambda>(k, v). write_newlines (k @ [61] @ v @ [10])) d)"

definition dict_encodable :: "dict \<Rightarrow> bool" where
  "dict_encodable d = list_all (\<lambda>(k, v). encodable k \<and> encodable v) d"

text \<open>
  The maps that survive a write followed by a parse: beyond unique, non-empty, trimmed keys,
  a key holds no \<open>=\<close> and no line break and does not start with \<open>#\<close> or \<open>;\<close>, a value is
  trimmed and holds no line break, nothing holds a surrogate, and the first key does not
  start with the byte-order mark. \<open>unix_line\<close> is the line of one pair as the parser reads it
  back.
\<close>

definition key_ok :: "pystr \<Rightarrow> bool" where
  "key_ok k \<longleftrightarrow> k \<noteq> [] \<and> strip k = k \<and> 61 \<notin> set k \<and> 10 \<notin> set k \<and> 13 \<notin> set k
     \<and> hd k \<noteq> 35 \<and> hd k \<noteq> 59 \<and> encodable k"

definition value_ok :: "pystr \<Rightarrow> bool" where
  "value_ok v \<longleftrightarrow> strip v = v \<and> 10 \<notin> set v \<and> 13 \<notin> set v \<and> encodable v"

definition roundtrip_safe :: "dict \<Rightarrow> bool" where
  "roundtrip_safe d \<longleftrightarrow>
     distinct (map fst d) \<and> list_all (\<lambda>(k, v). key_ok k \<and> value_ok v) d
     \<and> (d = [] \<or> hd (fst (hd d)) \<noteq> 65279)"

definition unix_line :: "pystr \<times> pystr \<Rightarrow> pystr" where
  "unix_line kv = fst kv @ 61 # snd kv @ [10]"

section \<open>TranslationMerger\<close>

text \<open>What \<open>merge\<close> hands back and reports: the returned pair, and the two counters it prints.\<close>

record merge_result =
  merged_data :: dict
  all_validation_results :: "ValidationResult list"
  applied :: nat
  not_found :: "pystr list"

definition validate_step :: "runtime \<Rightarrow> dict \<Rightarrow> ValidationResult list \<Rightarrow> Translation \<Rightarrow> ValidationResult list" where
  "validate_step rt source_data acc tr =
     acc @ validate rt tr (dict_get source_data (Translation.key tr) [])"

definition apply_step :: "dict \<times> nat \<times> pystr list \<Rightarrow> Translation \<Rightarrow> dict \<times> nat \<times> pystr list" where
  "apply_step st tr =
     (case st of (merged, n_applied, missing) \<Rightarrow>
        if dict_in (Translation.key tr) merged
        then (dict_set merged (Translation.key tr) (translated tr), n_applied + 1, missing)
        else (merged, n_applied, missing @ [Translation.key tr]))"

text \<open>The step on the map alone, in the words of the specification: overwrite the value at
  the record's key if the key is present, otherwise leave the map as it is.\<close>

definition spec_merge_step :: "dict \<Rightarrow> Translation \<Rightarrow> dict" where
  "spec_merge_step m tr =
     (if dict_in (Translation.key tr) m then dict_set m (Translation.key tr) (translated tr) else m)"

text \<open>
  The console. \<open>Colors\<close> holds the class attributes of the source, which are the ANSI codes
  until \<open>strip_if_no_tty\<close> has emptied them. \<open>print\<close> encodes its line for the console and
  raises \<open>UnicodeEncodeError\<close> when the console's encoding and error handler refuse it; which
  lines they accept is a parameter. What has been printed is kept, one entry per call.
\<close>

record Colors =
  RED :: pystr
  GREEN :: pystr
  YELLOW :: pystr
  BLUE :: pystr
  MAGENTA :: pystr
  CYAN :: pystr
  BOLD :: pystr
  END :: pystr

definition Colors_ansi :: Colors where
  "Colors_ansi =
     \<lparr>RED = 27 # str ''[91m'', GREEN = 27 # str ''[92m'', YELLOW = 27 # str ''[93m'',
      BLUE = 27 # str ''[94m'', MAGENTA = 27 # str ''[95m'', CYAN = 27 # str ''[96m'',
      BOLD = 27 # str ''[1m'', END = 27 # str ''[0m''\<rparr>"

definition strip_if_no_tty :: "bool \<Rightarrow> Colors \<Rightarrow> Colors" where
  "strip_if_no_tty isatty c =
     (if \<not> isatty
      then \<lparr>RED = [], GREEN = [], YELLOW = [], BLUE = [], MAGENTA = [], CYAN = [],
            BOLD = [], END = []\<rparr>
      else c)"

record terminal =
  colors :: Colors
  stdout_accepts :: "pystr \<Rightarrow> bool"

text \<open>A run of \<open>print\<close> calls: the lines go out in order until one is refused. The result is
  what has been printed and whether every line went out.\<close>

fun print_lines :: "terminal \<Rightarrow> pystr list \<Rightarrow> pystr list \<Rightarrow> pystr list \<times> bool" where
  "print_lines t out [] = (out, True)"
| "print_lines t out (l # ls) =
     (if stdout_accepts t l then print_lines t (out @ [l]) ls else (out, False))"

text \<open>\<open>path.name\<close>: the last component of a path written with \<open>/\<close>.\<close>

definition path_name :: "pystr \<Rightarrow> pystr" where
  "path_name p = rev (takeWhile (\<lambda>c. c \<noteq> 47) (dropWhile (\<lambda>c. c = 47) (rev p)))"

text \<open>The lines of \<open>merge\<close> and of \<open>parse\<close>, with their pictographs as code points:
  U+1F4D6, U+1F50D, U+2713, U+26A0 U+FE0F, U+1F4BE and U+274C.\<close>

definition reading_line :: "terminal \<Rightarrow> pystr \<Rightarrow> pystr" where
  "reading_line t source_file =
     CYAN (colors t) @ [128214] @ str '' Reading source file: '' @ path_name source_file
       @ END (colors t)"

definition found_line :: "dict \<Rightarrow> pystr" where
  "found_line source_data = str ''   Found '' @ str_nat (length source_data) @ str '' keys''"

definition validating_line :: "terminal \<Rightarrow> pystr" where
  "validating_line t =
     CYAN (colors t) @ [128269] @ str '' Validating translations...'' @ END (colors t)"

definition applied_line :: "terminal \<Rightarrow> nat \<Rightarrow> pystr" where
  "applied_line t n =
     GREEN (colors t) @ [10003] @ str '' Applied '' @ str_nat n @ str '' translations''
       @ END (colors t)"

definition not_found_lines :: "terminal \<Rightarrow> pystr list \<Rightarrow> pystr list" where
  "not_found_lines t missing =
     (if missing \<noteq> []
      then [YELLOW (colors t) @ [9888, 65039] @ str ''  '' @ str_nat (length missing)
              @ str '' keys not found in source:'' @ END (colors t)]
           @ map (\<lambda>k. str ''   - '' @ k) (take 5 missing)
           @ (if length missing > 5
              then [str ''   ... and '' @ str_nat (length missing - 5) @ str '' more'']
              else [])
      else [])"

definition writing_line :: "terminal \<Rightarrow> pystr \<Rightarrow> pystr" where
  "writing_line t output_file =
     CYAN (colors t) @ [128190] @ str '' Writing merged file: '' @ path_name output_file
       @ END (colors t)"

text \<open>What \<open>parse\<close> prints before it re-raises: one line, when the file does not decode.\<close>

definition parse_prints :: "terminal \<Rightarrow> filesystem \<Rightarrow> pystr \<Rightarrow> pystr list" where
  "parse_prints t fs file_path =
     (case fs file_path of
        Some (Not_UTF8 n) \<Rightarrow>
          [RED (colors t) @ [10060] @ str '' Error: File is not UTF-8 encoded at line ''
             @ str_nat n @ END (colors t)]
      | _ \<Rightarrow> [])"

text \<open>The lines \<open>merge\<close> prints between the parse and the write, in their order. Validating
  and applying raise nothing, so these prints are run as one list.\<close>

definition merge_report ::
  "terminal \<Rightarrow> dict \<Rightarrow> nat \<Rightarrow> pystr list \<Rightarrow> pystr \<Rightarrow> bool \<Rightarrow> pystr list" where
  "merge_report t source_data n_applied missing output_file do_validate =
     [found_line source_data]
     @ (if do_validate then [validating_line t] else [])
     @ [applied_line t n_applied]
     @ not_found_lines t missing
     @ [writing_line t output_file]"

text \<open>
  \<open>merge\<close>: the state is the file system and what has been printed. A refused print, a
  failed parse and a failed write each end the call with their exception; the file system
  changes only in the write.
\<close>

definition merge ::
  "runtime \<Rightarrow> terminal \<Rightarrow> filesystem \<Rightarrow> pystr \<Rightarrow> Translation list \<Rightarrow> pystr \<Rightarrow> bool
     \<Rightarrow> (filesystem \<times> pystr list) \<times> (error + merge_result)" where
  "merge rt t fs source_file translations output_file do_validate =
     (let (out1, ok1) = print_lines t [] [reading_line t source_file]
      in if \<not> ok1 then ((fs, out1), Inl UnicodeEncodeError)
         else
           (case parse fs source_file of
              Inl e \<Rightarrow>
                (let (out2, ok2) = print_lines t out1 (parse_prints t fs source_file)
                 in ((fs, out2), Inl (if ok2 then e else UnicodeEncodeError)))
            | Inr source_data \<Rightarrow>
                (let results = (if do_validate
                                then foldl (validate_step rt source_data) [] translations
                                else []);
                     (merged, n_applied, missing) =
                        foldl apply_step (source_data, 0, []) translations;
                     (out2, ok2) = print_lines t out1
                        (merge_report t source_data n_applied missing output_file do_validate)
                 in if \<not> ok2 then ((fs, out2), Inl UnicodeEncodeError)
                    else
                      (let (fs', written) = write_ini fs output_file merged
                       in ((fs', out2),
                           case written of
                             Inl e \<Rightarrow> Inl e
                           | Inr u \<Rightarrow> Inr \<lparr>merged_data = merged,
                                            all_validation_results = results,
                                            applied = n_applied, not_found = missing\<rparr>)))))"

text \<open>The condition under which \<open>merge\<close> runs to its \<open>return\<close>: every line it prints is
  accepted, the source file parses, and the merged text encodes.\<close>

definition merge_completes ::
  "terminal \<Rightarrow> filesystem \<Rightarrow> pystr \<Rightarrow> Translation list \<Rightarrow> pystr \<Rightarrow> bool \<Rightarrow> bool" where
  "merge_completes t fs source_file translations output_file do_validate \<longleftrightarrow>
     stdout_accepts t (reading_line t source_file) \<and>
     (case parse fs source_file of
        Inl e \<Rightarrow> False
      | Inr source_data \<Rightarrow>
          list_all (stdout_accepts t)
            (merge_report t source_data
               (length (filter (\<lambda>tr. dict_in (Translation.key tr) source_data) translations))
               (map Translation.key
                  (filter (\<lambda>tr. \<not> dict_in (Translation.key tr) source_data) translations))
               output_file do_validate)
          \<and> dict_encodable (foldl spec_merge_step source_data translations))"

section \<open>BackupManager\<close>

text \<open>
  The backup directory holds its entries under their names; an entry carries the
  modification time (only its order matters) and the content. \<open>copy2\<close> keeps the
  modification time of the file it copies. Three things belong to the platform and are
  parameters: the wall-clock stamp \<open>%Y%m%d_%H%M%S\<close> of a call, pathlib's pattern match, and
  the order in which a scan of the directory yields its entries (\<open>scandir\<close> returns the
  entries of the directory in that order). \<open>stem\<close> and \<open>suffix\<close> are the two parts of the
  file name as pathlib gives them.
\<close>

record stat_file =
  st_mtime :: int
  content :: file_data

type_synonym directory = "(pystr \<times> stat_file) list"

record file_name =
  stem :: pystr
  suffix :: pystr

record pathlib =
  fnmatch :: "pystr \<Rightarrow> pystr \<Rightarrow> bool"
  scandir :: "directory \<Rightarrow> directory"

fun copy2 :: "directory \<Rightarrow> pystr \<Rightarrow> stat_file \<Rightarrow> directory" where
  "copy2 [] name f = [(name, f)]"
| "copy2 ((n, g) # d) name f = (if n = name then (n, f) # d else (n, g) # copy2 d name f)"

definition unlink :: "directory \<Rightarrow> pystr \<Rightarrow> directory" where
  "unlink d name = filter (\<lambda>e. fst e \<noteq> name) d"

definition glob :: "pathlib \<Rightarrow> directory \<Rightarrow> pystr \<Rightarrow> directory" where
  "glob os d pattern = filter (\<lambda>e. fnmatch os (fst e) pattern) (scandir os d)"

text \<open>\<open>sorted(..., key=st_mtime, reverse=True)\<close>: newest first, entries of equal time in
  their given order.\<close>

definition sorted_newest_first :: "directory \<Rightarrow> directory" where
  "sorted_newest_first d = sort_key (\<lambda>e. - st_mtime (snd e)) d"

definition cleanup_old_backups :: "pathlib \<Rightarrow> directory \<Rightarrow> pystr \<Rightarrow> nat \<Rightarrow> directory" where
  "cleanup_old_backups os d file_stem keep =
     (let backups = sorted_newest_first (glob os d (file_stem @ [95, 42]))
      in foldl unlink d (map fst (drop keep backups)))"

definition backup_name :: "file_name \<Rightarrow> pystr \<Rightarrow> pystr" where
  "backup_name file_path timestamp = stem file_path @ [95] @ timestamp @ suffix file_path"

definition create_backup ::
  "pathlib \<Rightarrow> directory \<Rightarrow> file_name \<Rightarrow> stat_file option \<Rightarrow> pystr
     \<Rightarrow> directory \<times> pystr option" where
  "create_backup os d file_path file timestamp =
     (case file of
        None \<Rightarrow> (d, None)
      | Some f \<Rightarrow>
          (let d1 = copy2 d (backup_name file_path timestamp) f;
               d2 = cleanup_old_backups os d1 (stem file_path) 5
           in (d2, Some (backup_name file_path timestamp))))"

definition list_backups :: "pathlib \<Rightarrow> directory \<Rightarrow> directory" where
  "list_backups os d = sorted_newest_first (glob os d [42])"

text \<open>Without wildcards in the stem, the pattern \<open>stem_*\<close> matches the names that start with
  \<open>stem_\<close>, and \<open>*\<close> matches every name: the matcher used for concrete runs, with a scan in
  the order of creation.\<close>

definition prefix_match :: "pystr \<Rightarrow> pystr \<Rightarrow> bool" where
  "prefix_match name pattern = startswith name (butlast pattern)"

definition plain_pathlib :: pathlib where
  "plain_pathlib = \<lparr>fnmatch = prefix_match, scandir = (\<lambda>d. d)\<rparr>"

text \<open>A series of \<open>create_backup\<close> calls for one file: each call has its time stamp and the
  file as it is then.\<close>

definition backup_call :: "pathlib \<Rightarrow> file_name \<Rightarrow> directory \<Rightarrow> pystr \<times> stat_file \<Rightarrow> directory" where
  "backup_call os file_path d c = fst (create_backup os d file_path (Some (snd c)) (fst c))"

definition backup_calls ::
  "pathlib \<Rightarrow> file_name \<Rightarrow> directory \<Rightarrow> (pystr \<times> stat_file) list \<Rightarrow> directory" where
  "backup_calls os file_path d cs = foldl (backup_call os file_path) d cs"

text \<open>The entry a call leaves in the directory, and the entries of the directory that the
  pattern \<open>stem_*\<close> of a file matches.\<close>

definition backup_entry :: "file_name \<Rightarrow> pystr \<times> stat_file \<Rightarrow> pystr \<times> stat_file" where
  "backup_entry file_path c = (backup_name file_path (fst c), snd c)"

definition matching :: "pathlib \<Rightarrow> file_name \<Rightarrow> directory \<Rightarrow> directory" where
  "matching os file_path d = filter (\<lambda>e. fnmatch os (fst e) (stem file_path @ [95, 42])) d"

section \<open>Concrete inputs\<close>

text \<open>A runtime with fixed renderings and a record with default fields, for the concrete runs.\<close>

definition plain_runtime :: runtime where
  "plain_runtime = \<lparr>repr_set = (\<lambda>S. str ''{...}''), encode_error_text = (\<lambda>s. str ''surrogates not allowed'')\<rparr>"

definition record_of :: "pystr \<Rightarrow> pystr \<Rightarrow> Translation" where
  "record_of k t = \<lparr>Translation.key = k, original = [], translated = t, category = str ''general'', comment = []\<rparr>"

definition source_ini :: pystr where
  "source_ini = str ''source.ini''"

definition merged_ini :: pystr where
  "merged_ini = str ''merged.ini''"

definition fs_with :: "pystr \<Rightarrow> filesystem" where
  "fs_with text = Map.empty(source_ini \<mapsto> Text text)"

text \<open>A console that takes UTF-8 with the strict error handler: it refuses exactly the lines
  that hold a surrogate.\<close>

definition utf8_terminal :: terminal where
  "utf8_terminal = \<lparr>colors = Colors_ansi, stdout_accepts = encodable\<rparr>"

text \<open>A file \<open>global.ini\<close>, its state at a given modification time, the time stamp of the
  \<open>n\<close>-th second of a minute, and seven calls of \<open>create_backup\<close> one second apart on a
  file that changes between them.\<close>

definition global_ini :: file_name where
  "global_ini = \<lparr>stem = str ''global'', suffix = str ''.ini''\<rparr>"

definition file_at :: "int \<Rightarrow> stat_file" where
  "file_at m = \<lparr>st_mtime = m, content = Text []\<rparr>"

definition stamp :: "nat \<Rightarrow> pystr" where
  "stamp n = str ''20240101_12000'' @ [48 + n]"

definition seven_calls :: "(pystr \<times> stat_file) list" where
  "seven_calls = [(stamp 1, file_at 10), (stamp 2, file_at 20), (stamp 3, file_at 30),
                  (stamp 4, file_at 40), (stamp 5, file_at 50), (stamp 6, file_at 60),
                  (stamp 7, file_at 70)]"

declare str_nat.simps [simp del]

section \<open>The validator's checks\<close>

text \<open>Every token the scan returns is \<open>%s\<close>, \<open>%d\<close>, or an opening brace, at least one
  character other than a closing brace, and a closing brace.\<close>

lemma findall_vars_shape:
  "t \<in> set (findall_vars s) \<Longrightarrow>
     t = [37, 115] \<or> t = [37, 100] \<or>
     (\<exists>body. t = 123 # body @ [125] \<and> body \<noteq> [] \<and> 125 \<notin> set body)"
proof (induction s rule: findall_vars.induct)
  case 1
  then show ?case by simp
next
  case (2 c cs)
  show ?case
  proof (cases "c = 123")
    case True
    show ?thesis
    proof (cases "takeWhile (\<lambda>x. x \<noteq> 125) cs \<noteq> [] \<and> dropWhile (\<lambda>x. x \<noteq> 125) cs \<noteq> []")
      case m: True
      from "2.prems" True m
      have "t = 123 # takeWhile (\<lambda>x. x \<noteq> 125) cs @ [125]
            \<or> t \<in> set (findall_vars (tl (dropWhile (\<lambda>x. x \<noteq> 125) cs)))"
        by simp
      then show ?thesis
      proof
        assume "t = 123 # takeWhile (\<lambda>x. x \<noteq> 125) cs @ [125]"
        moreover have "125 \<notin> set (takeWhile (\<lambda>x. x \<noteq> 125) cs)"
          by (auto dest: set_takeWhileD)
        ultimately show ?thesis using m by blast
      next
        assume "t \<in> set (findall_vars (tl (dropWhile (\<lambda>x. x \<noteq> 125) cs)))"
        with "2.IH"(1) True m show ?thesis by blast
      qed
    next
      case m: False
      with "2.prems" True have "t \<in> set (findall_vars cs)" by auto
      with "2.IH"(2) True m show ?thesis by blast
    qed
  next
    case nb: False
    show ?thesis
    proof (cases "c = 37")
      case True
      show ?thesis
      proof (cases cs)
        case Nil
        with "2.prems" nb True show ?thesis by simp
      next
        case (Cons d ds)
        show ?thesis
        proof (cases "d = 115 \<or> d = 100")
          case sd: True
          with "2.prems" nb True Cons
          have "t = [37, d] \<or> t \<in> set (findall_vars ds)" by auto
          then show ?thesis
          proof
            assume "t = [37, d]" with sd show ?thesis by auto
          next
            assume "t \<in> set (findall_vars ds)"
            with "2.IH"(4) nb True Cons sd show ?thesis by blast
          qed
        next
          case sd: False
          with "2.prems" nb True Cons have "t \<in> set (findall_vars cs)" by auto
          with "2.IH"(5) nb True Cons sd show ?thesis by blast
        qed
      qed
    next
      case False
      with "2.prems" nb have "t \<in> set (findall_vars cs)" by simp
      with "2.IH"(6) nb False show ?thesis by blast
    qed
  qed
qed

text \<open>
  Claim C2. When the placeholder tokens of the original and of the translation are the same
  set, the variable check returns no diagnostic. When the sets differ it returns exactly
  one diagnostic of level \<open>ERROR\<close> that carries the record's key and whose message names the
  key, then lists the missing tokens (in the original only) if there are any, then the extra
  tokens (in the translation only) if there are any.
\<close>

theorem check_variables_spec:
  "(set (findall_vars orig) = set (findall_vars (translated tr))
      \<longrightarrow> check_variables rt tr orig = []) \<and>
   (set (findall_vars orig) \<noteq> set (findall_vars (translated tr))
      \<longrightarrow> check_variables rt tr orig =
            [\<lparr>level = ERROR,
              message =
                str ''Variable mismatch in '' @ [39] @ Translation.key tr @ [39]
                @ (if set (findall_vars orig) - set (findall_vars (translated tr)) \<noteq> {}
                   then [10] @ str ''  Missing: ''
                        @ repr_set rt (set (findall_vars orig) - set (findall_vars (translated tr)))
                   else [])
                @ (if set (findall_vars (translated tr)) - set (findall_vars orig) \<noteq> {}
                   then [10] @ str ''  Extra: ''
                        @ repr_set rt (set (findall_vars (translated tr)) - set (findall_vars orig))
                   else []),
              key = Some (Translation.key tr)\<rparr>])"
  by (simp add: check_variables_def variables_msg_def Let_def)

theorem check_variables_spec_witness:
  "set (findall_vars (str ''Welcome {player_name}!''))
     = set (findall_vars (translated (record_of (str ''w'') (str ''Greetings {player_name}!''))))
   \<and> check_variables plain_runtime (record_of (str ''w'') (str ''Greetings {player_name}!''))
        (str ''Welcome {player_name}!'') = []
   \<and> set (findall_vars (str ''Error: {code}''))
       \<noteq> set (findall_vars (translated (record_of (str ''err'') (str ''Something went wrong!''))))
   \<and> check_variables plain_runtime (record_of (str ''err'') (str ''Something went wrong!''))
        (str ''Error: {code}'')
      = [\<lparr>level = ERROR,
          message = str ''Variable mismatch in '' @ [39] @ str ''err'' @ [39, 10] @ str ''  Missing: {...}'',
          key = Some (str ''err'')\<rparr>]"
  using check_variables_spec [where orig = "str ''Welcome {player_name}!''"
          and tr = "record_of (str ''w'') (str ''Greetings {player_name}!'')" and rt = plain_runtime]
        check_variables_spec [where orig = "str ''Error: {code}''"
          and tr = "record_of (str ''err'') (str ''Something went wrong!'')" and rt = plain_runtime]
  by (simp add: str_def record_of_def plain_runtime_def)

text \<open>
  Claim C3. The length check returns exactly one \<open>WARNING\<close>, whose message cites the length
  of the translation and the length of the original, when the translation is longer than
  1.5 times the original, and nothing otherwise. For an original of 2 characters a
  translation of 4 or more characters gives the warning and one of 3 or fewer gives none.
\<close>

theorem check_length_spec:
  "(real (length (translated tr)) > 1.5 * real (length orig)
      \<longrightarrow> check_length tr orig =
            [\<lparr>level = WARNING,
              message = [39] @ Translation.key tr @ [39] @ str '' is much longer (''
                        @ str_nat (length (translated tr)) @ str '' vs '' @ str_nat (length orig)
                        @ str '' chars) - may not fit in UI'',
              key = Some (Translation.key tr)\<rparr>]) \<and>
   (\<not> real (length (translated tr)) > 1.5 * real (length orig)
      \<longrightarrow> check_length tr orig = []) \<and>
   (length orig = 2 \<and> 4 \<le> length (translated tr)
      \<longrightarrow> map level (check_length tr orig) = [WARNING]) \<and>
   (length orig = 2 \<and> length (translated tr) \<le> 3
      \<longrightarrow> check_length tr orig = [])"
  by (auto simp: check_length_def length_msg_def mult.commute)

theorem check_length_spec_witness:
  "real (length (translated (record_of (str ''k'') (str ''Hiya'')))) > 1.5 * real (length (str ''Hi''))
   \<and> check_length (record_of (str ''k'') (str ''Hiya'')) (str ''Hi'')
       = [\<lparr>level = WARNING,
           message = [39] @ str ''k'' @ [39] @ str '' is much longer (4 vs 2 chars) - may not fit in UI'',
           key = Some (str ''k'')\<rparr>]
   \<and> \<not> real (length (translated (record_of (str ''k'') (str ''Hey'')))) > 1.5 * real (length (str ''Hi''))
   \<and> check_length (record_of (str ''k'') (str ''Hey'')) (str ''Hi'') = []"
  using check_length_spec [where tr = "record_of (str ''k'') (str ''Hiya'')" and orig = "str ''Hi''"]
        check_length_spec [where tr = "record_of (str ''k'') (str ''Hey'')" and orig = "str ''Hi''"]
  by (simp add: str_def record_of_def str_nat.simps)

text \<open>
  Claim C4. \<open>validate\<close> is a function of the record and the original value alone; its result
  is the diagnostics of the variable check, then of the length check, then of the
  special-character check, then of the encoding check. Each check contributes whatever the
  earlier ones found: the levels of the result are decided by the four conditions
  independently.
\<close>

theorem validate_spec:
  "validate rt tr orig =
     check_variables rt tr orig @ check_length tr orig @ check_special_chars tr @ check_encoding rt tr
   \<and> map level (validate rt tr orig) =
       (if set (findall_vars orig) \<noteq> set (findall_vars (translated tr)) then [ERROR] else [])
       @ (if 3 * length orig < 2 * length (translated tr) then [WARNING] else [])
       @ (if contains (translated tr) [92, 110] \<or> contains (translated tr) [10] then [INFO] else [])
       @ (if encodable (translated tr) then [] else [ERROR])"
proof -
  have r: "(real (length orig) * 1.5 < real (length (translated tr))) = (3 * length orig < 2 * length (translated tr))"
  proof -
    have "(real (length orig) * 1.5 < real (length (translated tr))) = (real (3 * length orig) < real (2 * length (translated tr)))"
      by (simp add: field_simps)
    then show ?thesis using of_nat_less_iff by blast
  qed
  show ?thesis
    by (simp add: validate_def Let_def check_variables_def check_length_def
        check_special_chars_def check_encoding_def r)
qed

theorem validate_spec_witness:
  "map level (validate plain_runtime
      (record_of (str ''k'') (str ''long text'' @ [10, 55296])) (str ''{a}''))
     = [ERROR, WARNING, INFO, ERROR]"
  using validate_spec [where rt = plain_runtime
          and tr = "record_of (str ''k'') (str ''long text'' @ [10, 55296])" and orig = "str ''{a}''"]
  by (simp add: str_def record_of_def encodable_def is_surrogate_def check_variables_def
      check_length_def check_special_chars_def check_encoding_def)

text \<open>
  Claim C10. The pair \<open>{}\<close> is never a placeholder token: a token that starts with a brace
  has at least one character between its braces. So an original that is just \<open>{}\<close>, against
  a translation without tokens, gives no variable diagnostic.
\<close>

theorem empty_braces_never_extracted:
  "str ''{}'' \<notin> set (findall_vars s) \<and>
   (\<forall>t \<in> set (findall_vars s). hd t = 123 \<longrightarrow> 3 \<le> length t) \<and>
   (findall_vars (translated tr) = [] \<longrightarrow> check_variables rt tr (str ''{}'') = [])"
proof (intro conjI)
  show "str ''{}'' \<notin> set (findall_vars s)"
    using findall_vars_shape [of "str ''{}''" s] by (auto simp: str_def)
  show "\<forall>t \<in> set (findall_vars s). hd t = 123 \<longrightarrow> 3 \<le> length t"
  proof (intro ballI impI)
    fix t assume "t \<in> set (findall_vars s)" "hd t = 123"
    with findall_vars_shape [of t s] show "3 \<le> length t"
      by (cases "takeWhile (\<lambda>x. x \<noteq> 125) t") (auto simp: Suc_le_eq)
  qed
  show "findall_vars (translated tr) = [] \<longrightarrow> check_variables rt tr (str ''{}'') = []"
    by (simp add: check_variables_def str_def)
qed

theorem empty_braces_never_extracted_witness:
  "str ''{}'' \<notin> set (findall_vars (str ''Value: {} of {n}''))
   \<and> findall_vars (str ''Value: {} of {n}'') = [str ''{n}'']
   \<and> findall_vars (translated (record_of (str ''k'') (str ''Wert''))) = []
   \<and> check_variables plain_runtime (record_of (str ''k'') (str ''Wert'')) (str ''{}'') = []"
  using empty_braces_never_extracted [where s = "str ''Value: {} of {n}''"
          and tr = "record_of (str ''k'') (str ''Wert'')" and rt = plain_runtime]
  by (simp add: str_def record_of_def)

section \<open>The merge\<close>

lemma keys_dict_set:
  "map fst (dict_set d k v) = (if k \<in> set (map fst d) then map fst d else map fst d @ [k])"
  by (induction d k v rule: dict_set.induct) auto

lemma dict_in_dict_set: "dict_in k' (dict_set d k v) \<longleftrightarrow> k' = k \<or> dict_in k' d"
  by (auto simp: dict_in_def keys_dict_set simp del: set_map)

lemma dict_set_twice: "dict_set (dict_set d k v) k v' = dict_set d k v'"
  by (induction d k v rule: dict_set.induct) auto

lemma map_of_dict_set: "map_of (dict_set d k v) = (map_of d)(k \<mapsto> v)"
  by (induction d k v rule: dict_set.induct) (auto simp: fun_eq_iff)

lemma apply_step_fst: "fst (apply_step (m, a, nf) tr) = spec_merge_step m tr"
  by (simp add: apply_step_def spec_merge_step_def)

lemma keys_spec_merge_step: "map fst (spec_merge_step m tr) = map fst m"
  by (simp add: spec_merge_step_def keys_dict_set dict_in_def)

lemma dict_in_spec_merge_step: "dict_in k (spec_merge_step m tr) = dict_in k m"
  by (simp add: dict_in_def keys_spec_merge_step del: set_map)

lemma dict_in_foldl_spec: "dict_in k (foldl spec_merge_step m ts) = dict_in k m"
  by (induction ts arbitrary: m) (simp_all add: dict_in_spec_merge_step)

lemma foldl_apply_step:
  "foldl apply_step (m, a, nf) ts =
     (foldl spec_merge_step m ts,
      a + length (filter (\<lambda>tr. dict_in (Translation.key tr) m) ts),
      nf @ map Translation.key (filter (\<lambda>tr. \<not> dict_in (Translation.key tr) m) ts))"
proof (induction ts arbitrary: m a nf)
  case Nil
  then show ?case by simp
next
  case (Cons t ts)
  show ?case
  proof (cases "dict_in (Translation.key t) m")
    case True
    then have "apply_step (m, a, nf) t = (spec_merge_step m t, a + 1, nf)"
      by (simp add: apply_step_def spec_merge_step_def)
    then show ?thesis
      using True by (simp add: Cons.IH dict_in_spec_merge_step)
  next
    case False
    then have "apply_step (m, a, nf) t = (spec_merge_step m t, a, nf @ [Translation.key t])"
      by (simp add: apply_step_def spec_merge_step_def)
    then show ?thesis
      using False by (simp add: Cons.IH dict_in_spec_merge_step)
  qed
qed

lemma foldl_validate_step:
  "foldl (validate_step rt d) acc ts
     = acc @ concat (map (\<lambda>tr. validate rt tr (dict_get d (Translation.key tr) [])) ts)"
  by (induction ts arbitrary: acc) (simp_all add: validate_step_def)

lemma encodable_append: "encodable (a @ b) \<longleftrightarrow> encodable a \<and> encodable b"
  by (simp add: encodable_def)

lemma encodable_line: "encodable (k @ 61 # v @ [10]) \<longleftrightarrow> encodable k \<and> encodable v"
  by (simp add: encodable_def is_surrogate_def)

lemma write_loop_ok:
  "dict_encodable d \<Longrightarrow> write_loop out d = (out @ serialize d, True)"
  by (induction d arbitrary: out)
     (auto simp: dict_encodable_def serialize_def encodable_line)

lemma write_loop_fail:
  "\<not> dict_encodable d \<Longrightarrow> snd (write_loop out d) = False"
proof (induction d arbitrary: out)
  case Nil
  then show ?case by (simp add: dict_encodable_def)
next
  case (Cons p d)
  obtain k v where p: "p = (k, v)" by (cases p)
  show ?case
  proof (cases "encodable k \<and> encodable v")
    case True
    with Cons.prems p have "\<not> dict_encodable d" by (simp add: dict_encodable_def)
    from Cons.IH [OF this] True p show ?thesis by (simp add: encodable_line)
  next
    case False
    with p show ?thesis by (auto simp: encodable_line)
  qed
qed

text \<open>
  Claim C5. Applying the merge step of one record twice leaves the same map as applying it
  once; the step overwrites the value at the record's key when the key is present and
  leaves the map unchanged otherwise.
\<close>

theorem apply_step_idempotent:
  "fst (apply_step (apply_step (m, a, nf) tr) tr) = fst (apply_step (m, a, nf) tr)
   \<and> fst (apply_step (m, a, nf) tr)
       = (if dict_in (Translation.key tr) m then dict_set m (Translation.key tr) (translated tr) else m)"
  by (simp add: apply_step_def dict_in_dict_set dict_set_twice)

theorem apply_step_idempotent_witness:
  "fst (apply_step (apply_step ([(str ''a'', str ''1''), (str ''b'', str ''2'')], 0, [])
          (record_of (str ''b'') (str ''X''))) (record_of (str ''b'') (str ''X'')))
     = [(str ''a'', str ''1''), (str ''b'', str ''X'')]"
  using apply_step_idempotent [where m = "[(str ''a'', str ''1''), (str ''b'', str ''2'')]"
          and a = 0 and nf = "[]" and tr = "record_of (str ''b'') (str ''X'')"]
  by (simp add: str_def record_of_def dict_in_def)

text \<open>\<open>merge\<close> case by case: the first print refused, the parse failed, and the parse
  succeeded.\<close>

lemma print_lines_eq:
  "print_lines t out ls
     = (out @ takeWhile (stdout_accepts t) ls, list_all (stdout_accepts t) ls)"
  by (induction ls arbitrary: out) simp_all

lemma merge_refused_first:
  "\<not> stdout_accepts t (reading_line t source_file)
     \<Longrightarrow> merge rt t fs source_file ts output_file v = ((fs, []), Inl UnicodeEncodeError)"
  by (simp add: merge_def print_lines_eq)

lemma merge_parse_error:
  "stdout_accepts t (reading_line t source_file) \<Longrightarrow> parse fs source_file = Inl e
     \<Longrightarrow> merge rt t fs source_file ts output_file v =
           ((fs, reading_line t source_file
                   # takeWhile (stdout_accepts t) (parse_prints t fs source_file)),
            Inl (if list_all (stdout_accepts t) (parse_prints t fs source_file)
                 then e else UnicodeEncodeError))"
  by (simp add: merge_def print_lines_eq)

lemma merge_unfold_gen:
  assumes acc: "stdout_accepts t (reading_line t source_file)"
    and p: "parse fs source_file = Inr source_data"
    and loop: "foldl apply_step (source_data, 0, []) ts = (M, n, missing)"
    and rep: "rep = merge_report t source_data n missing output_file v"
  shows "merge rt t fs source_file ts output_file v =
     (if list_all (stdout_accepts t) rep
      then ((fs(output_file \<mapsto> Text (fst (write_loop [] M))), reading_line t source_file # rep),
            if dict_encodable M
            then Inr \<lparr>merged_data = M,
                      all_validation_results =
                        (if v then concat (map (\<lambda>tr. validate rt tr
                                     (dict_get source_data (Translation.key tr) [])) ts)
                         else []),
                      applied = n, not_found = missing\<rparr>
            else Inl UnicodeEncodeError)
      else ((fs, reading_line t source_file # takeWhile (stdout_accepts t) rep),
            Inl UnicodeEncodeError))"
proof -
  have p1: "print_lines t [] [reading_line t source_file] = ([reading_line t source_file], True)"
    using acc by simp
  have p2: "print_lines t [reading_line t source_file]
              (merge_report t source_data n missing output_file v)
            = (reading_line t source_file # takeWhile (stdout_accepts t) rep,
               list_all (stdout_accepts t) rep)"
    unfolding rep by (simp only: print_lines_eq append_Cons append_Nil)
  show ?thesis
  proof (cases "list_all (stdout_accepts t) rep")
    case False
    then show ?thesis
      by (simp add: merge_def acc p1 p p2 loop Let_def)
  next
    case all: True
    then have tw: "takeWhile (stdout_accepts t) rep = rep"
      by (simp add: list_all_iff)
    show ?thesis
    proof (cases "dict_encodable M")
      case True
      then show ?thesis
        using all
        by (simp add: merge_def acc p1 p p2 loop tw foldl_validate_step write_ini_def
            write_loop_ok [OF True] Let_def)
    next
      case False
      obtain out where w: "write_loop [] M = (out, False)"
        using write_loop_fail [OF False, of "[]"] by (cases "write_loop [] M") auto
      show ?thesis
        using all False
        by (simp add: merge_def acc p1 p p2 loop tw foldl_validate_step write_ini_def w Let_def)
    qed
  qed
qed

lemmas merge_unfold = merge_unfold_gen [OF _ _ foldl_apply_step refl]


lemma merge_completes_unfold:
  "parse fs source_file = Inr source_data \<Longrightarrow>
   merge_completes t fs source_file ts output_file v \<longleftrightarrow>
     stdout_accepts t (reading_line t source_file)
     \<and> list_all (stdout_accepts t)
          (merge_report t source_data
             (length (filter (\<lambda>tr. dict_in (Translation.key tr) source_data) ts))
             (map Translation.key (filter (\<lambda>tr. \<not> dict_in (Translation.key tr) source_data) ts))
             output_file v)
     \<and> dict_encodable (foldl spec_merge_step source_data ts)"
  by (simp add: merge_completes_def)

lemma merge_success:
  assumes p: "parse fs source_file = Inr source_data"
    and c: "merge_completes t fs source_file ts output_file v"
  shows "merge rt t fs source_file ts output_file v =
            ((fs(output_file \<mapsto> Text (serialize (foldl spec_merge_step source_data ts))),
              reading_line t source_file
                # merge_report t source_data
                    (length (filter (\<lambda>tr. dict_in (Translation.key tr) source_data) ts))
                    (map Translation.key
                       (filter (\<lambda>tr. \<not> dict_in (Translation.key tr) source_data) ts))
                    output_file v),
             Inr \<lparr>merged_data = foldl spec_merge_step source_data ts,
                  all_validation_results =
                    (if v then concat (map (\<lambda>tr. validate rt tr
                                 (dict_get source_data (Translation.key tr) [])) ts)
                     else []),
                  applied = length (filter (\<lambda>tr. dict_in (Translation.key tr) source_data) ts),
                  not_found = map Translation.key
                                (filter (\<lambda>tr. \<not> dict_in (Translation.key tr) source_data) ts)\<rparr>)"
proof -
  from c p have a: "stdout_accepts t (reading_line t source_file)"
    and l: "list_all (stdout_accepts t)
          (merge_report t source_data
             (length (filter (\<lambda>tr. dict_in (Translation.key tr) source_data) ts))
             (map Translation.key (filter (\<lambda>tr. \<not> dict_in (Translation.key tr) source_data) ts))
             output_file v)"
    and e: "dict_encodable (foldl spec_merge_step source_data ts)"
    by (simp_all add: merge_completes_unfold)
  have w: "fst (write_loop [] (foldl spec_merge_step source_data ts))
             = serialize (foldl spec_merge_step source_data ts)"
    using write_loop_ok [OF e, of "[]"] by simp
  show ?thesis
    unfolding merge_unfold [OF a p] using l e w by simp
qed

lemma merge_failure:
  assumes "\<not> merge_completes t fs source_file ts output_file v"
  shows "\<exists>e. snd (merge rt t fs source_file ts output_file v) = Inl e"
proof (cases "stdout_accepts t (reading_line t source_file)")
  case False
  then show ?thesis by (simp add: merge_refused_first)
next
  case a: True
  show ?thesis
  proof (cases "parse fs source_file")
    case (Inl e)
    then show ?thesis by (simp add: merge_parse_error [OF a])
  next
    case (Inr d)
    with assms a show ?thesis
      unfolding merge_unfold [OF a Inr] by (auto simp: merge_completes_unfold)
  qed
qed

lemma merge_report_validate:
  "stdout_accepts t (validating_line t) \<Longrightarrow>
   list_all (stdout_accepts t) (merge_report t d n m output_file True)
     = list_all (stdout_accepts t) (merge_report t d n m output_file False)"
  by (simp add: merge_report_def)


lemma parse_one_key:
  "parse (fs_with (str ''a=1'' @ [10])) source_ini = Inr [(str ''a'', str ''1'')]"
  by (simp add: parse_def fs_with_def parse_text_def readlines_def parse_line_def strip_def
      lstrip_def rstrip_def isspace_def partition_eq_def str_def Let_def)

lemma accepts_reading_source:
  "stdout_accepts utf8_terminal (reading_line utf8_terminal source_ini)"
  by (simp add: utf8_terminal_def reading_line_def Colors_ansi_def path_name_def source_ini_def
      encodable_def is_surrogate_def str_def)

lemma merge_validate_flag:
  assumes va: "stdout_accepts t (validating_line t)"
  shows "fst (fst (merge rt t fs source_file ts output_file True))
           = fst (fst (merge rt t fs source_file ts output_file False))
         \<and> map_sum id merged_data (snd (merge rt t fs source_file ts output_file True))
           = map_sum id merged_data (snd (merge rt t fs source_file ts output_file False))"
proof (cases "stdout_accepts t (reading_line t source_file)")
  case False
  then show ?thesis by (simp add: merge_refused_first)
next
  case a: True
  show ?thesis
  proof (cases "parse fs source_file")
    case (Inl e)
    then show ?thesis by (simp add: merge_parse_error [OF a])
  next
    case (Inr d)
    show ?thesis
      unfolding merge_unfold [OF a Inr]
      by (simp add: merge_report_validate [OF va])
  qed
qed

lemma parse_err_key:
  "parse (fs_with (str ''err=Error: {code}'' @ [10])) source_ini
     = Inr [(str ''err'', str ''Error: {code}'')]"
  by (simp add: parse_def fs_with_def parse_text_def readlines_def parse_line_def strip_def
      lstrip_def rstrip_def isspace_def partition_eq_def str_def Let_def)




text \<open>
  Claim C7, amended. Validation raises nothing of its own and does not gate the merge: on a
  console that accepts the line announcing the validation, the file system left behind and
  the merged map (or the exception raised) are the same with and without validation.
  \<open>merge\<close> with validation returns exactly when the source file parses, the console
  accepts every line \<open>merge\<close> prints and the merged text encodes as UTF-8; it then returns
  the diagnostics of all records, whatever their severity, with the merged map. Otherwise
  the exception of the parse, of the print or of the write propagates and no diagnostics
  are returned.
\<close>

theorem validation_is_advisory:
  "(stdout_accepts t (validating_line t)
      \<longrightarrow> fst (fst (merge rt t fs source_file ts output_file True))
            = fst (fst (merge rt t fs source_file ts output_file False))
          \<and> map_sum id merged_data (snd (merge rt t fs source_file ts output_file True))
            = map_sum id merged_data (snd (merge rt t fs source_file ts output_file False)))
   \<and> (parse fs source_file = Inr source_data
       \<and> merge_completes t fs source_file ts output_file True
      \<longrightarrow> snd (merge rt t fs source_file ts output_file True) =
            Inr \<lparr>merged_data = foldl spec_merge_step source_data ts,
                 all_validation_results =
                   concat (map (\<lambda>tr. validate rt tr
                                  (dict_get source_data (Translation.key tr) [])) ts),
                 applied = length (filter (\<lambda>tr. dict_in (Translation.key tr) source_data) ts),
                 not_found = map Translation.key
                               (filter (\<lambda>tr. \<not> dict_in (Translation.key tr) source_data) ts)\<rparr>)
   \<and> (\<not> merge_completes t fs source_file ts output_file v
      \<longrightarrow> (\<exists>e. snd (merge rt t fs source_file ts output_file v) = Inl e))
   \<and> (stdout_accepts t (reading_line t source_file) \<and> parse fs source_file = Inl e
       \<and> list_all (stdout_accepts t) (parse_prints t fs source_file)
      \<longrightarrow> merge rt t fs source_file ts output_file v
            = ((fs, reading_line t source_file # parse_prints t fs source_file), Inl e))
   \<and> (stdout_accepts t (reading_line t source_file) \<and> parse fs source_file = Inr source_data
       \<and> list_all (stdout_accepts t)
            (merge_report t source_data
               (length (filter (\<lambda>tr. dict_in (Translation.key tr) source_data) ts))
               (map Translation.key
                  (filter (\<lambda>tr. \<not> dict_in (Translation.key tr) source_data) ts))
               output_file v)
       \<and> \<not> dict_encodable (foldl spec_merge_step source_data ts)
      \<longrightarrow> snd (merge rt t fs source_file ts output_file v) = Inl UnicodeEncodeError)"
proof -
  have c1: "stdout_accepts t (validating_line t)
      \<longrightarrow> fst (fst (merge rt t fs source_file ts output_file True))
            = fst (fst (merge rt t fs source_file ts output_file False))
          \<and> map_sum id merged_data (snd (merge rt t fs source_file ts output_file True))
            = map_sum id merged_data (snd (merge rt t fs source_file ts output_file False))"
    using merge_validate_flag [of t rt fs source_file ts output_file] by blast
  have c2: "parse fs source_file = Inr source_data
       \<and> merge_completes t fs source_file ts output_file True
      \<longrightarrow> snd (merge rt t fs source_file ts output_file True) =
            Inr \<lparr>merged_data = foldl spec_merge_step source_data ts,
                 all_validation_results =
                   concat (map (\<lambda>tr. validate rt tr
                                  (dict_get source_data (Translation.key tr) [])) ts),
                 applied = length (filter (\<lambda>tr. dict_in (Translation.key tr) source_data) ts),
                 not_found = map Translation.key
                               (filter (\<lambda>tr. \<not> dict_in (Translation.key tr) source_data) ts)\<rparr>"
  proof
    assume h: "parse fs source_file = Inr source_data
       \<and> merge_completes t fs source_file ts output_file True"
    then have p: "parse fs source_file = Inr source_data"
      and c: "merge_completes t fs source_file ts output_file True" by simp_all
    show "snd (merge rt t fs source_file ts output_file True) =
            Inr \<lparr>merged_data = foldl spec_merge_step source_data ts,
                 all_validation_results =
                   concat (map (\<lambda>tr. validate rt tr
                                  (dict_get source_data (Translation.key tr) [])) ts),
                 applied = length (filter (\<lambda>tr. dict_in (Translation.key tr) source_data) ts),
                 not_found = map Translation.key
                               (filter (\<lambda>tr. \<not> dict_in (Translation.key tr) source_data) ts)\<rparr>"
      by (simp add: merge_success [OF p c])
  qed
  have c3: "\<not> merge_completes t fs source_file ts output_file v
      \<longrightarrow> (\<exists>e. snd (merge rt t fs source_file ts output_file v) = Inl e)"
    using merge_failure [of t fs source_file ts output_file v rt] by blast
  have c4: "stdout_accepts t (reading_line t source_file) \<and> parse fs source_file = Inl e
       \<and> list_all (stdout_accepts t) (parse_prints t fs source_file)
      \<longrightarrow> merge rt t fs source_file ts output_file v
            = ((fs, reading_line t source_file # parse_prints t fs source_file), Inl e)"
    by (auto simp: merge_parse_error list_all_iff)
  have c5: "stdout_accepts t (reading_line t source_file) \<and> parse fs source_file = Inr source_data
       \<and> list_all (stdout_accepts t)
            (merge_report t source_data
               (length (filter (\<lambda>tr. dict_in (Translation.key tr) source_data) ts))
               (map Translation.key
                  (filter (\<lambda>tr. \<not> dict_in (Translation.key tr) source_data) ts))
               output_file v)
       \<and> \<not> dict_encodable (foldl spec_merge_step source_data ts)
      \<longrightarrow> snd (merge rt t fs source_file ts output_file v) = Inl UnicodeEncodeError"
    by (auto simp: merge_unfold)
  show ?thesis by (intro conjI) (rule c1, rule c2, rule c3, rule c4, rule c5)
qed

theorem validation_is_advisory_witness:
  "stdout_accepts utf8_terminal (validating_line utf8_terminal)
   \<and> parse (fs_with (str ''err=Error: {code}'' @ [10])) source_ini
       = Inr [(str ''err'', str ''Error: {code}'')]
   \<and> merge_completes utf8_terminal (fs_with (str ''err=Error: {code}'' @ [10])) source_ini
        [record_of (str ''err'') (str ''Something went wrong!'')] merged_ini True
   \<and> map_sum id (map level \<circ> all_validation_results)
        (snd (merge plain_runtime utf8_terminal (fs_with (str ''err=Error: {code}'' @ [10]))
                source_ini [record_of (str ''err'') (str ''Something went wrong!'')] merged_ini True))
       = Inr [ERROR, WARNING]
   \<and> map_sum id merged_data
        (snd (merge plain_runtime utf8_terminal (fs_with (str ''err=Error: {code}'' @ [10]))
                source_ini [record_of (str ''err'') (str ''Something went wrong!'')] merged_ini True))
       = Inr [(str ''err'', str ''Something went wrong!'')]
   \<and> map_sum id merged_data
        (snd (merge plain_runtime utf8_terminal (fs_with (str ''err=Error: {code}'' @ [10]))
                source_ini [record_of (str ''err'') (str ''Something went wrong!'')] merged_ini False))
       = Inr [(str ''err'', str ''Something went wrong!'')]
   \<and> \<not> merge_completes utf8_terminal (fs_with (str ''a=1'' @ [10])) source_ini
          [record_of (str ''a'') [55296]] merged_ini True
   \<and> snd (merge plain_runtime utf8_terminal (fs_with (str ''a=1'' @ [10])) source_ini
            [record_of (str ''a'') [55296]] merged_ini True) = Inl UnicodeEncodeError
   \<and> parse Map.empty source_ini = Inl FileNotFoundError
   \<and> merge plain_runtime utf8_terminal Map.empty source_ini
        [record_of (str ''a'') (str ''X'')] merged_ini True
       = ((Map.empty, [reading_line utf8_terminal source_ini]), Inl FileNotFoundError)"
proof -
  have va: "stdout_accepts utf8_terminal (validating_line utf8_terminal)"
    by (simp add: utf8_terminal_def validating_line_def Colors_ansi_def encodable_def
        is_surrogate_def str_def)
  have c: "merge_completes utf8_terminal (fs_with (str ''err=Error: {code}'' @ [10])) source_ini
        [record_of (str ''err'') (str ''Something went wrong!'')] merged_ini True"
    unfolding merge_completes_unfold [OF parse_err_key]
    by (simp add: accepts_reading_source)
       (simp add: utf8_terminal_def merge_report_def found_line_def validating_line_def
        applied_line_def not_found_lines_def writing_line_def Colors_ansi_def path_name_def
        merged_ini_def str_nat.simps spec_merge_step_def dict_in_def dict_encodable_def
        encodable_def is_surrogate_def str_def record_of_def)
  have n: "\<not> merge_completes utf8_terminal (fs_with (str ''a=1'' @ [10])) source_ini
          [record_of (str ''a'') [55296]] merged_ini True"
    unfolding merge_completes_unfold [OF parse_one_key]
    by (simp add: spec_merge_step_def dict_in_def dict_encodable_def
        encodable_def is_surrogate_def str_def record_of_def)
  have l: "list_all (stdout_accepts utf8_terminal)
            (merge_report utf8_terminal [(str ''a'', str ''1'')]
               (length (filter (\<lambda>tr. dict_in (Translation.key tr) [(str ''a'', str ''1'')])
                          [record_of (str ''a'') [55296]]))
               (map Translation.key
                  (filter (\<lambda>tr. \<not> dict_in (Translation.key tr) [(str ''a'', str ''1'')])
                     [record_of (str ''a'') [55296]]))
               merged_ini True)"
    by (simp add: utf8_terminal_def merge_report_def found_line_def validating_line_def
        applied_line_def not_found_lines_def writing_line_def Colors_ansi_def path_name_def
        merged_ini_def str_nat.simps dict_in_def encodable_def is_surrogate_def str_def
        record_of_def)
  have ne: "\<not> dict_encodable (foldl spec_merge_step [(str ''a'', str ''1'')]
               [record_of (str ''a'') [55296]])"
    by (simp add: spec_merge_step_def dict_in_def dict_encodable_def
        encodable_def is_surrogate_def str_def record_of_def)
  have pe: "parse Map.empty source_ini = Inl FileNotFoundError"
    by (simp add: parse_def)
  have pp: "list_all (stdout_accepts utf8_terminal) (parse_prints utf8_terminal Map.empty source_ini)"
    by (simp add: parse_prints_def)
  have pp2: "parse_prints utf8_terminal Map.empty source_ini = []"
    by (simp add: parse_prints_def)
  note T1 = validation_is_advisory [where t = utf8_terminal and rt = plain_runtime
        and fs = "fs_with (str ''err=Error: {code}'' @ [10])" and source_file = source_ini
        and source_data = "[(str ''err'', str ''Error: {code}'')]"
        and ts = "[record_of (str ''err'') (str ''Something went wrong!'')]"
        and output_file = merged_ini and v = True and e = FileNotFoundError]
  note T2 = validation_is_advisory [where t = utf8_terminal and rt = plain_runtime
        and fs = "fs_with (str ''a=1'' @ [10])" and source_file = source_ini
        and source_data = "[(str ''a'', str ''1'')]"
        and ts = "[record_of (str ''a'') [55296]]"
        and output_file = merged_ini and v = True and e = FileNotFoundError]
  note T3 = validation_is_advisory [where t = utf8_terminal and rt = plain_runtime
        and fs = Map.empty and source_file = source_ini
        and source_data = "[]"
        and ts = "[record_of (str ''a'') (str ''X'')]"
        and output_file = merged_ini and v = True and e = FileNotFoundError]
  have r1: "snd (merge plain_runtime utf8_terminal (fs_with (str ''err=Error: {code}'' @ [10]))
                source_ini [record_of (str ''err'') (str ''Something went wrong!'')] merged_ini True)
            = Inr \<lparr>merged_data = [(str ''err'', str ''Something went wrong!'')],
                   all_validation_results =
                     validate plain_runtime (record_of (str ''err'') (str ''Something went wrong!''))
                       (str ''Error: {code}''),
                   applied = 1, not_found = []\<rparr>"
    using T1 parse_err_key c
    by (simp add: spec_merge_step_def dict_in_def dict_get_def record_of_def str_def)
  have lv: "map level (validate plain_runtime (record_of (str ''err'') (str ''Something went wrong!''))
                       (str ''Error: {code}'')) = [ERROR, WARNING]"
    by (simp add: str_def record_of_def validate_def check_variables_def check_length_def
        check_special_chars_def check_encoding_def encodable_def is_surrogate_def)
  have r2: "map_sum id merged_data
        (snd (merge plain_runtime utf8_terminal (fs_with (str ''err=Error: {code}'' @ [10]))
                source_ini [record_of (str ''err'') (str ''Something went wrong!'')] merged_ini False))
       = map_sum id merged_data
        (snd (merge plain_runtime utf8_terminal (fs_with (str ''err=Error: {code}'' @ [10]))
                source_ini [record_of (str ''err'') (str ''Something went wrong!'')] merged_ini True))"
    using T1 va by simp
  have r3: "snd (merge plain_runtime utf8_terminal (fs_with (str ''a=1'' @ [10])) source_ini
            [record_of (str ''a'') [55296]] merged_ini True) = Inl UnicodeEncodeError"
    using T2 accepts_reading_source parse_one_key l ne by simp
  have r4: "merge plain_runtime utf8_terminal Map.empty source_ini
        [record_of (str ''a'') (str ''X'')] merged_ini True
       = ((Map.empty, [reading_line utf8_terminal source_ini]), Inl FileNotFoundError)"
    using T3 accepts_reading_source pe pp by (simp add: pp2)
  show ?thesis
    using va parse_err_key c n pe r3 r4
    by (simp add: r2 r1 lv)
qed

text \<open>
  The claim as stated, for every input, fails: a translation that holds a lone surrogate
  gets an \<open>ERROR\<close> diagnostic from the encoding check, and then the write raises
  \<open>UnicodeEncodeError\<close>; a record with a lone surrogate as key, absent from the source,
  gets a \<open>WARNING\<close>, and then the print of the not-found key raises. In both runs \<open>merge\<close>
  returns nothing to its caller.
\<close>

theorem merge_returns_diagnostics_counterexample:
  "map level (validate plain_runtime (record_of (str ''a'') [55296]) (str ''1'')) = [ERROR]
   \<and> snd (merge plain_runtime utf8_terminal (fs_with (str ''a=1'' @ [10])) source_ini
            [record_of (str ''a'') [55296]] merged_ini True) = Inl UnicodeEncodeError
   \<and> map level (validate plain_runtime (record_of [55296] (str ''X'')) []) = [WARNING]
   \<and> snd (merge plain_runtime utf8_terminal (fs_with (str ''a=1'' @ [10])) source_ini
            [record_of [55296] (str ''X'')] merged_ini True) = Inl UnicodeEncodeError"
proof -
  have v1: "map level (validate plain_runtime (record_of (str ''a'') [55296]) (str ''1'')) = [ERROR]"
    by (simp add: str_def record_of_def validate_def check_variables_def check_length_def
        check_special_chars_def check_encoding_def encodable_def is_surrogate_def)
  have v2: "map level (validate plain_runtime (record_of [55296] (str ''X'')) []) = [WARNING]"
    by (simp add: str_def record_of_def validate_def check_variables_def check_length_def
        check_special_chars_def check_encoding_def encodable_def is_surrogate_def)
  have m1: "snd (merge plain_runtime utf8_terminal (fs_with (str ''a=1'' @ [10])) source_ini
            [record_of (str ''a'') [55296]] merged_ini True) = Inl UnicodeEncodeError"
    unfolding merge_unfold [OF accepts_reading_source parse_one_key]
    by (simp add: spec_merge_step_def dict_in_def dict_encodable_def
        encodable_def is_surrogate_def str_def record_of_def)
  have m2: "snd (merge plain_runtime utf8_terminal (fs_with (str ''a=1'' @ [10])) source_ini
            [record_of [55296] (str ''X'')] merged_ini True) = Inl UnicodeEncodeError"
    unfolding merge_unfold [OF accepts_reading_source parse_one_key]
    by (simp add: utf8_terminal_def merge_report_def found_line_def validating_line_def
        applied_line_def not_found_lines_def writing_line_def Colors_ansi_def path_name_def
        merged_ini_def str_nat.simps spec_merge_step_def dict_in_def dict_encodable_def
        encodable_def is_surrogate_def str_def record_of_def)
  from v1 v2 m1 m2 show ?thesis by simp
qed

section \<open>The parser\<close>

text \<open>What \<open>strip\<close> leaves is empty or has no whitespace at either end, and only such
  strings are left as they are.\<close>

lemma rstrip_split: "rstrip s @ rev (takeWhile isspace (rev s)) = s"
proof -
  have "rev (dropWhile isspace (rev s)) @ rev (takeWhile isspace (rev s))
          = rev (takeWhile isspace (rev s) @ dropWhile isspace (rev s))"
    by (simp only: rev_append)
  also have "\<dots> = rev (rev s)" by (simp only: takeWhile_dropWhile_id)
  finally show ?thesis by (simp add: rstrip_def)
qed

lemma rstrip_last: "rstrip s \<noteq> [] \<Longrightarrow> \<not> isspace (last (rstrip s))"
proof -
  assume "rstrip s \<noteq> []"
  then have n: "dropWhile isspace (rev s) \<noteq> []" by (simp add: rstrip_def)
  have "last (rstrip s) = hd (dropWhile isspace (rev s))"
    using n by (simp add: rstrip_def last_rev)
  with hd_dropWhile [OF n] show ?thesis by simp
qed

lemma rstrip_hd: "rstrip s \<noteq> [] \<Longrightarrow> hd (rstrip s) = hd s"
proof -
  assume n: "rstrip s \<noteq> []"
  have "hd (rstrip s @ rev (takeWhile isspace (rev s))) = hd (rstrip s)"
    using n by (rule hd_append2)
  then show ?thesis by (simp only: rstrip_split)
qed

lemma lstrip_hd: "lstrip s \<noteq> [] \<Longrightarrow> \<not> isspace (hd (lstrip s))"
  unfolding lstrip_def by (rule hd_dropWhile)

lemma strip_ends:
  assumes n: "strip s \<noteq> []"
  shows "\<not> isspace (hd (strip s)) \<and> \<not> isspace (last (strip s))"
proof -
  have r: "rstrip (lstrip s) \<noteq> []" using n by (simp add: strip_def)
  then have l: "lstrip s \<noteq> []" by (auto simp: rstrip_def)
  have "hd (strip s) = hd (lstrip s)" using rstrip_hd [OF r] by (simp add: strip_def)
  moreover have "\<not> isspace (last (strip s))" using rstrip_last [OF r] by (simp add: strip_def)
  ultimately show ?thesis using lstrip_hd [OF l] by simp
qed

lemma strip_fixed:
  assumes "s = [] \<or> (\<not> isspace (hd s) \<and> \<not> isspace (last s))"
  shows "strip s = s"
proof (cases "s = []")
  case True
  then show ?thesis by (simp add: strip_def lstrip_def rstrip_def)
next
  case False
  with assms have h: "\<not> isspace (hd s)" and t: "\<not> isspace (last s)" by auto
  from h False have "lstrip s = s" by (simp add: lstrip_def dropWhile_eq_self_iff)
  moreover have "rstrip s = s"
  proof -
    from t False have "dropWhile isspace (rev s) = rev s"
      by (simp add: dropWhile_eq_self_iff hd_rev)
    then show ?thesis by (simp add: rstrip_def)
  qed
  ultimately show ?thesis by (simp add: strip_def)
qed

lemma strip_eq_iff: "strip s = s \<longleftrightarrow> s = [] \<or> (\<not> isspace (hd s) \<and> \<not> isspace (last s))"
proof
  assume e: "strip s = s"
  show "s = [] \<or> (\<not> isspace (hd s) \<and> \<not> isspace (last s))"
  proof (cases "s = []")
    case True then show ?thesis by simp
  next
    case False
    with e have "strip s \<noteq> []" by simp
    from strip_ends [OF this] e show ?thesis by simp
  qed
next
  assume "s = [] \<or> (\<not> isspace (hd s) \<and> \<not> isspace (last s))"
  then show "strip s = s" by (rule strip_fixed)
qed

lemma strip_idem: "strip (strip s) = strip s"
proof (rule strip_fixed)
  show "strip s = [] \<or> (\<not> isspace (hd (strip s)) \<and> \<not> isspace (last (strip s)))"
    using strip_ends [of s] by blast
qed

lemma contains_single: "contains s [c] \<longleftrightarrow> c \<in> set s"
  by (induction s) auto

lemma startswith_single: "startswith s [c] \<longleftrightarrow> s \<noteq> [] \<and> hd s = c"
  by (cases s) auto

lemma partition_eq_split: "61 \<notin> set k \<Longrightarrow> partition_eq (k @ 61 # v) = (k, v)"
  by (induction k) (simp_all add: partition_eq_def)

lemma parse_line_skip:
  "strip raw = [] \<or> startswith (strip raw) [35] \<or> startswith (strip raw) [59]
     \<Longrightarrow> parse_line d raw = d"
  by (auto simp: parse_line_def Let_def)

lemma parse_line_no_eq: "61 \<notin> set (strip raw) \<Longrightarrow> parse_line d raw = d"
  by (simp add: parse_line_def Let_def contains_single)

lemma parse_line_pair:
  assumes "strip raw = k @ [61] @ v" and "61 \<notin> set k"
    and "\<not> startswith (strip raw) [35]" and "\<not> startswith (strip raw) [59]"
  shows "parse_line d raw = (if strip k \<noteq> [] then dict_set d (strip k) (strip v) else d)"
proof -
  have c: "contains (strip raw) [61]" using assms(1) by (simp add: contains_single)
  have n: "strip raw \<noteq> []" using assms(1) by simp
  have p: "partition_eq (strip raw) = (k, v)" using assms(1,2) by (simp add: partition_eq_split)
  show ?thesis using c n p assms(3,4) by (simp add: parse_line_def Let_def)
qed

lemma parse_line_result:
  "parse_line d raw = d \<or> (\<exists>k v. k \<noteq> [] \<and> strip k = k \<and> parse_line d raw = dict_set d k v)"
  by (auto simp: parse_line_def Let_def strip_idem)

lemma kv_invariant_dict_set:
  "kv_invariant d \<Longrightarrow> k \<noteq> [] \<Longrightarrow> strip k = k \<Longrightarrow> kv_invariant (dict_set d k v)"
  by (auto simp: kv_invariant_def keys_dict_set simp del: set_map)

lemma kv_invariant_parse_line: "kv_invariant d \<Longrightarrow> kv_invariant (parse_line d raw)"
  using parse_line_result [of d raw] by (auto intro: kv_invariant_dict_set)

lemma kv_invariant_foldl: "kv_invariant d \<Longrightarrow> kv_invariant (foldl parse_line d ls)"
  by (induction ls arbitrary: d) (simp_all add: kv_invariant_parse_line)

lemma kv_invariant_parse_text: "kv_invariant (parse_text file_text)"
  unfolding parse_text_def by (rule kv_invariant_foldl) (simp add: kv_invariant_def)

text \<open>
  Claim C8. \<open>parse\<close> runs the loop body over the lines of the text. The body trims the line;
  an empty line and a line that starts with \<open>#\<close> or \<open>;\<close> leave the map as it is; a line
  \<open>k=v\<close>, split at its first \<open>=\<close>, stores the trimmed value under the trimmed key when
  that key is not empty and leaves the map as it is otherwise (as does a line without
  \<open>=\<close>). Storing keeps the order of the keys, puts a new key last and replaces the value of
  a key already seen. So the keys of every map that \<open>parse\<close> returns are distinct,
  non-empty and trimmed; a value may be empty.
\<close>

theorem parse_establishes_invariant:
  "(strip raw = [] \<or> startswith (strip raw) [35] \<or> startswith (strip raw) [59]
      \<longrightarrow> parse_line d raw = d)
   \<and> (strip raw = k @ [61] @ v \<and> 61 \<notin> set k
       \<and> \<not> startswith (strip raw) [35] \<and> \<not> startswith (strip raw) [59]
      \<longrightarrow> parse_line d raw = (if strip k \<noteq> [] then dict_set d (strip k) (strip v) else d))
   \<and> (61 \<notin> set (strip raw) \<longrightarrow> parse_line d raw = d)
   \<and> map fst (dict_set d k' v') = (if k' \<in> set (map fst d) then map fst d else map fst d @ [k'])
   \<and> map_of (dict_set d k' v') = (map_of d)(k' \<mapsto> v')
   \<and> parse_text file_text = foldl parse_line [] (readlines file_text)
   \<and> distinct (map fst (parse_text file_text))
   \<and> (\<forall>key \<in> set (map fst (parse_text file_text)). key \<noteq> [] \<and> strip key = key)
   \<and> (parse fs file_path = Inr data
      \<longrightarrow> distinct (map fst data) \<and> (\<forall>key \<in> set (map fst data). key \<noteq> [] \<and> strip key = key))
   \<and> parse_text (str ''k='') = [(str ''k'', [])]"
proof -
  have c1: "strip raw = [] \<or> startswith (strip raw) [35] \<or> startswith (strip raw) [59]
      \<longrightarrow> parse_line d raw = d"
    using parse_line_skip [of raw d] by blast
  have c2: "strip raw = k @ [61] @ v \<and> 61 \<notin> set k
       \<and> \<not> startswith (strip raw) [35] \<and> \<not> startswith (strip raw) [59]
      \<longrightarrow> parse_line d raw = (if strip k \<noteq> [] then dict_set d (strip k) (strip v) else d)"
    using parse_line_pair [of raw k v d] by blast
  have c3: "61 \<notin> set (strip raw) \<longrightarrow> parse_line d raw = d"
    using parse_line_no_eq [of raw d] by blast
  have c4: "map fst (dict_set d k' v') = (if k' \<in> set (map fst d) then map fst d else map fst d @ [k'])"
    by (rule keys_dict_set)
  have c5: "map_of (dict_set d k' v') = (map_of d)(k' \<mapsto> v')"
    by (rule map_of_dict_set)
  have c6: "parse_text file_text = foldl parse_line [] (readlines file_text)"
    by (simp add: parse_text_def)
  have c7: "distinct (map fst (parse_text file_text))"
    using kv_invariant_parse_text [of file_text] by (simp add: kv_invariant_def)
  have c8: "\<forall>key \<in> set (map fst (parse_text file_text)). key \<noteq> [] \<and> strip key = key"
    using kv_invariant_parse_text [of file_text] by (simp add: kv_invariant_def)
  have c9: "parse fs file_path = Inr data
      \<longrightarrow> distinct (map fst data) \<and> (\<forall>key \<in> set (map fst data). key \<noteq> [] \<and> strip key = key)"
  proof
    assume p: "parse fs file_path = Inr data"
    then obtain t where "data = parse_text t"
      by (auto simp: parse_def split: option.splits file_data.splits)
    then show "distinct (map fst data) \<and> (\<forall>key \<in> set (map fst data). key \<noteq> [] \<and> strip key = key)"
      using kv_invariant_parse_text [of t] by (simp add: kv_invariant_def)
  qed
  have c10: "parse_text (str ''k='') = [(str ''k'', [])]"
    by (simp add: parse_text_def readlines_def parse_line_def strip_def
        lstrip_def rstrip_def isspace_def partition_eq_def str_def Let_def)
  show ?thesis
    by (intro conjI) (rule c1, rule c2, rule c3, rule c4, rule c5, rule c6, rule c7, rule c8,
        rule c9, rule c10)
qed

theorem parse_establishes_invariant_witness:
  "parse (fs_with ([65279] @ str ''# names'' @ [13, 10] @ str ''  b = 2 '' @ [10, 10]
            @ str ''a=x=y'' @ [13] @ str ''no separator'' @ [10] @ str '' =lost'' @ [10]
            @ str ''b=3'')) source_ini
     = Inr [(str ''b'', str ''3''), (str ''a'', str ''x=y'')]
   \<and> distinct (map fst [(str ''b'', str ''3''), (str ''a'', str ''x=y'')])
   \<and> strip (str ''b'') = str ''b'' \<and> strip (str ''a'') = str ''a''"
proof -
  have p: "parse (fs_with ([65279] @ str ''# names'' @ [13, 10] @ str ''  b = 2 '' @ [10, 10]
            @ str ''a=x=y'' @ [13] @ str ''no separator'' @ [10] @ str '' =lost'' @ [10]
            @ str ''b=3'')) source_ini
     = Inr [(str ''b'', str ''3''), (str ''a'', str ''x=y'')]"
    by (simp add: parse_def fs_with_def parse_text_def readlines_def parse_line_def strip_def
        lstrip_def rstrip_def isspace_def partition_eq_def str_def Let_def)
  show ?thesis
    using p parse_establishes_invariant [where fs = "fs_with ([65279] @ str ''# names'' @ [13, 10]
            @ str ''  b = 2 '' @ [10, 10] @ str ''a=x=y'' @ [13] @ str ''no separator'' @ [10]
            @ str '' =lost'' @ [10] @ str ''b=3'')"
          and file_path = source_ini
          and data = "[(str ''b'', str ''3''), (str ''a'', str ''x=y'')]"]
    by simp
qed

section \<open>Write, then parse\<close>

lemma write_newlines_plain: "10 \<notin> set s \<Longrightarrow> write_newlines s = s"
  by (induction s) (auto simp: write_newlines_def)

lemma write_newlines_append: "write_newlines (a @ b) = write_newlines a @ write_newlines b"
  by (simp add: write_newlines_def)

lemma write_newlines_line:
  "10 \<notin> set k \<Longrightarrow> 10 \<notin> set v \<Longrightarrow> write_newlines (k @ 61 # v @ [10]) = k @ 61 # v @ [13, 10]"
proof -
  assume a: "10 \<notin> set k" "10 \<notin> set v"
  have "write_newlines (k @ 61 # v @ [10]) = write_newlines (k @ 61 # v) @ write_newlines [10]"
    using write_newlines_append [of "k @ 61 # v" "[10]"] by simp
  moreover have "write_newlines (k @ 61 # v) = k @ 61 # v"
    using a by (intro write_newlines_plain) simp
  moreover have "write_newlines [10] = [13, 10]" by (simp add: write_newlines_def)
  ultimately show ?thesis by simp
qed

lemma universal_newlines_keep: "c \<noteq> 13 \<Longrightarrow> universal_newlines (c # xs) = c # universal_newlines xs"
  by (cases xs) auto

lemma universal_newlines_crlf:
  "13 \<notin> set s \<Longrightarrow> universal_newlines (s @ 13 # 10 # rest) = s @ 10 # universal_newlines rest"
  by (induction s) (simp_all add: universal_newlines_keep)

lemma lines_from_line:
  "10 \<notin> set l \<Longrightarrow> lines_from cur (l @ 10 # rest) = (cur @ l @ [10]) # lines_from [] rest"
  by (induction l arbitrary: cur) simp_all

lemma strip_bom_id: "x = [] \<or> hd x \<noteq> 65279 \<Longrightarrow> strip_bom x = x"
  by (cases x) auto

lemma strip_line:
  assumes "k \<noteq> []" and "strip k = k" and "strip v = v"
  shows "strip (k @ 61 # v @ [10]) = k @ 61 # v"
proof -
  have hk: "\<not> isspace (hd k)" using assms(1,2) by (simp add: strip_eq_iff)
  have lv: "v = [] \<or> \<not> isspace (last v)" using assms(3) strip_eq_iff [of v] by blast
  have l: "lstrip (k @ 61 # v @ [10]) = k @ 61 # v @ [10]"
    using hk assms(1) by (simp add: lstrip_def dropWhile_eq_self_iff)
  have s10: "isspace 10" by (simp add: isspace_def)
  have n61: "\<not> isspace 61" by (simp add: isspace_def)
  have lastnon: "\<not> isspace (last (k @ 61 # v))" using lv n61 by auto
  have "dropWhile isspace (rev (k @ 61 # v @ [10])) = dropWhile isspace (rev (k @ 61 # v))"
    using s10 by simp
  also have "\<dots> = rev (k @ 61 # v)"
    using lastnon by (simp only: dropWhile_eq_self_iff hd_rev) simp
  finally have "rstrip (k @ 61 # v @ [10]) = k @ 61 # v"
    by (simp add: rstrip_def)
  with l show ?thesis by (simp add: strip_def)
qed

lemma parse_line_written:
  assumes "key_ok k" and "value_ok v"
  shows "parse_line acc (unix_line (k, v)) = dict_set acc k v"
proof -
  from assms have k: "k \<noteq> []" "strip k = k" "61 \<notin> set k" "hd k \<noteq> 35" "hd k \<noteq> 59"
    and v: "strip v = v"
    by (simp_all add: key_ok_def value_ok_def)
  have s: "strip (unix_line (k, v)) = k @ [61] @ v"
    using strip_line [OF k(1,2) v] by (simp add: unix_line_def)
  have h: "hd (k @ [61] @ v) = hd k" using k(1) by simp
  have n1: "\<not> startswith (strip (unix_line (k, v))) [35]"
    using k(1,4) h by (simp add: s startswith_single)
  have n2: "\<not> startswith (strip (unix_line (k, v))) [59]"
    using k(1,5) h by (simp add: s startswith_single)
  from parse_line_pair [OF s k(3) n1 n2, of acc] k(1,2) v show ?thesis by simp
qed

lemma dict_set_new: "k \<notin> set (map fst acc) \<Longrightarrow> dict_set acc k v = acc @ [(k, v)]"
  by (induction acc k v rule: dict_set.induct) auto

lemma foldl_parse_written:
  "distinct (map fst d) \<Longrightarrow> list_all (\<lambda>(k, v). key_ok k \<and> value_ok v) d
     \<Longrightarrow> set (map fst acc) \<inter> set (map fst d) = {}
     \<Longrightarrow> foldl parse_line acc (map unix_line d) = acc @ d"
proof (induction d arbitrary: acc)
  case Nil
  then show ?case by simp
next
  case (Cons p d)
  obtain k v where p: "p = (k, v)" by (cases p)
  from Cons.prems p have ok: "key_ok k" "value_ok v" by simp_all
  from Cons.prems p have new: "k \<notin> set (map fst acc)" by auto
  have step: "parse_line acc (unix_line p) = acc @ [(k, v)]"
    using parse_line_written [OF ok, of acc] dict_set_new [OF new, of v] p by simp
  have disj: "set (map fst (acc @ [(k, v)])) \<inter> set (map fst d) = {}"
    using Cons.prems p by auto
  have "foldl parse_line (acc @ [(k, v)]) (map unix_line d) = (acc @ [(k, v)]) @ d"
    using Cons.prems p by (intro Cons.IH disj) simp_all
  with step p show ?case by simp
qed

lemma readlines_written:
  "list_all (\<lambda>(k, v). 10 \<notin> set k \<and> 10 \<notin> set v) d
     \<Longrightarrow> lines_from [] (concat (map unix_line d)) = map unix_line d"
proof (induction d)
  case Nil
  then show ?case by simp
next
  case (Cons p d)
  obtain k v where p: "p = (k, v)" by (cases p)
  from Cons.prems p have n: "10 \<notin> set (k @ 61 # v)" by simp
  have "lines_from [] ((k @ 61 # v) @ 10 # concat (map unix_line d))
          = ([] @ (k @ 61 # v) @ [10]) # lines_from [] (concat (map unix_line d))"
    using n by (rule lines_from_line)
  moreover have "unix_line p = k @ 61 # v @ [10]" using p by (simp add: unix_line_def)
  ultimately show ?case using Cons by simp
qed

lemma universal_newlines_written:
  "list_all (\<lambda>(k, v). 10 \<notin> set k \<and> 13 \<notin> set k \<and> 10 \<notin> set v \<and> 13 \<notin> set v) d
     \<Longrightarrow> universal_newlines (serialize d) = concat (map unix_line d)"
proof (induction d)
  case Nil
  then show ?case by (simp add: serialize_def)
next
  case (Cons p d)
  obtain k v where p: "p = (k, v)" by (cases p)
  from Cons.prems p have n: "10 \<notin> set k" "10 \<notin> set v" "13 \<notin> set (k @ 61 # v)" by simp_all
  have w: "serialize (p # d) = (k @ 61 # v) @ 13 # 10 # serialize d"
    using write_newlines_line [OF n(1,2)] p by (simp add: serialize_def)
  have "universal_newlines ((k @ 61 # v) @ 13 # 10 # serialize d)
          = (k @ 61 # v) @ 10 # universal_newlines (serialize d)"
    using n(3) by (rule universal_newlines_crlf)
  moreover have "unix_line p = k @ 61 # v @ [10]" using p by (simp add: unix_line_def)
  ultimately show ?case using w Cons by simp
qed


lemma key_ok_encodable: "list_all (\<lambda>(k, v). key_ok k \<and> value_ok v) d \<Longrightarrow> dict_encodable d"
  by (induction d) (auto simp: dict_encodable_def key_ok_def value_ok_def)

lemma serialize_hd:
  "d \<noteq> [] \<Longrightarrow> fst (hd d) \<noteq> [] \<Longrightarrow> 10 \<notin> set (fst (hd d))
     \<Longrightarrow> hd (serialize d) = hd (fst (hd d)) \<and> serialize d \<noteq> []"
proof -
  assume a: "d \<noteq> []" "fst (hd d) \<noteq> []" "10 \<notin> set (fst (hd d))"
  then obtain k v d' where d: "d = (k, v) # d'" by (cases d) auto
  with a obtain c cs where k: "k = c # cs" by (cases k) auto
  with a d have "c \<noteq> 10" by auto
  then show ?thesis using d k by (simp add: serialize_def write_newlines_def)
qed

text \<open>
  Claim C1, amended. For every map whose keys are unique, non-empty, trimmed, without \<open>=\<close>
  and without line breaks, not starting with \<open>#\<close> or \<open>;\<close> (nor, for the first key, with
  the byte-order mark), whose values are trimmed and without line breaks, and which holds
  no surrogate code point, \<open>write\<close> completes and parsing the file it wrote returns the same
  map, in the same order.
\<close>

theorem write_then_parse:
  assumes "roundtrip_safe d"
  shows "snd (write_ini fs file_path d) = Inr ()
         \<and> parse (fst (write_ini fs file_path d)) file_path = Inr d"
proof -
  from assms have dist: "distinct (map fst d)"
    and ok: "list_all (\<lambda>(k, v). key_ok k \<and> value_ok v) d"
    and bom: "d = [] \<or> hd (fst (hd d)) \<noteq> 65279"
    by (simp_all add: roundtrip_safe_def)
  have w: "write_loop [] d = (serialize d, True)"
    using write_loop_ok [OF key_ok_encodable [OF ok], of "[]"] by simp
  have wi: "write_ini fs file_path d = (fs(file_path \<mapsto> Text (serialize d)), Inr ())"
    by (simp add: write_ini_def w)
  have nl: "list_all (\<lambda>(k, v). 10 \<notin> set k \<and> 13 \<notin> set k \<and> 10 \<notin> set v \<and> 13 \<notin> set v) d"
    using ok by (induction d) (auto simp: key_ok_def value_ok_def)
  have nl10: "list_all (\<lambda>(k, v). 10 \<notin> set k \<and> 10 \<notin> set v) d"
    using ok by (induction d) (auto simp: key_ok_def value_ok_def)
  have sb: "strip_bom (serialize d) = serialize d"
  proof (cases "d = []")
    case True
    then show ?thesis by (simp add: serialize_def)
  next
    case False
    then obtain k v d' where d: "d = (k, v) # d'" by (cases d) auto
    with ok have "key_ok k" by simp
    then have "fst (hd d) \<noteq> []" "10 \<notin> set (fst (hd d))" using d by (simp_all add: key_ok_def)
    from serialize_hd [OF False this] bom False show ?thesis
      by (intro strip_bom_id) simp
  qed
  have "parse_text (universal_newlines (strip_bom (serialize d))) = d"
    using foldl_parse_written [OF dist ok, of "[]"]
    by (simp add: sb universal_newlines_written [OF nl] parse_text_def readlines_def
        readlines_written [OF nl10])
  then show ?thesis by (simp add: wi parse_def)
qed

theorem write_then_parse_witness:
  "roundtrip_safe [(str ''ui_title'', str ''Hello, {name}!''), (str ''ui_note'', [])]
   \<and> snd (write_ini Map.empty merged_ini
        [(str ''ui_title'', str ''Hello, {name}!''), (str ''ui_note'', [])]) = Inr ()
   \<and> parse (fst (write_ini Map.empty merged_ini
        [(str ''ui_title'', str ''Hello, {name}!''), (str ''ui_note'', [])])) merged_ini
       = Inr [(str ''ui_title'', str ''Hello, {name}!''), (str ''ui_note'', [])]"
proof -
  have s: "roundtrip_safe [(str ''ui_title'', str ''Hello, {name}!''), (str ''ui_note'', [])]"
    by (simp add: roundtrip_safe_def key_ok_def value_ok_def strip_def lstrip_def rstrip_def
        isspace_def encodable_def is_surrogate_def str_def)
  from s write_then_parse [OF s, of Map.empty merged_ini] show ?thesis by simp
qed

text \<open>
  The claim as stated, for arbitrary string values and any unique, non-empty, trimmed keys,
  fails: a value with a leading blank comes back trimmed; a key with \<open>=\<close> comes back split
  at it; the text after a line break in a value is lost; a pair whose key starts with \<open>#\<close>
  is read as a comment; a byte-order mark at the start of the first key is dropped; and a
  surrogate in a value makes \<open>write\<close> raise.
\<close>

theorem write_then_parse_counterexample:
  "distinct (map fst [(str ''a'', str '' x'')])
   \<and> str ''a'' \<noteq> [] \<and> strip (str ''a'') = str ''a''
   \<and> parse (fst (write_ini Map.empty merged_ini [(str ''a'', str '' x'')])) merged_ini
       = Inr [(str ''a'', str ''x'')]
   \<and> parse (fst (write_ini Map.empty merged_ini [(str ''a'', str '' x'')])) merged_ini
       \<noteq> Inr [(str ''a'', str '' x'')]
   \<and> distinct (map fst [(str ''a=b'', str ''c'')])
   \<and> str ''a=b'' \<noteq> [] \<and> strip (str ''a=b'') = str ''a=b''
   \<and> parse (fst (write_ini Map.empty merged_ini [(str ''a=b'', str ''c'')])) merged_ini
       = Inr [(str ''a'', str ''b=c'')]
   \<and> parse (fst (write_ini Map.empty merged_ini [(str ''a'', str ''x'' @ [10] @ str ''y'')])) merged_ini
       = Inr [(str ''a'', str ''x'')]
   \<and> strip (str ''#a'') = str ''#a''
   \<and> parse (fst (write_ini Map.empty merged_ini [(str ''#a'', str ''1'')])) merged_ini = Inr []
   \<and> strip (65279 # str ''a'') = 65279 # str ''a''
   \<and> parse (fst (write_ini Map.empty merged_ini [(65279 # str ''a'', str ''1'')])) merged_ini
       = Inr [(str ''a'', str ''1'')]
   \<and> snd (write_ini Map.empty merged_ini [(str ''a'', [55296])]) = Inl UnicodeEncodeError"
  by (simp add: write_ini_def write_newlines_def encodable_def is_surrogate_def
      parse_def parse_text_def readlines_def parse_line_def strip_def
      lstrip_def rstrip_def isspace_def partition_eq_def str_def Let_def)

section \<open>The backups\<close>

lemma foldl_unlink: "foldl unlink d ns = filter (\<lambda>e. fst e \<notin> set ns) d"
proof (induction ns arbitrary: d)
  case Nil
  then show ?case by simp
next
  case (Cons n ns)
  have "foldl unlink (unlink d n) ns = filter (\<lambda>e. fst e \<notin> set ns) (unlink d n)"
    by (rule Cons.IH)
  also have "\<dots> = filter (\<lambda>e. fst e \<notin> set (n # ns)) d"
    unfolding unlink_def by (induction d) auto
  finally show ?case by simp
qed

lemma copy2_new: "name \<notin> set (map fst d) \<Longrightarrow> copy2 d name f = d @ [(name, f)]"
  by (induction d name f rule: copy2.induct) auto

lemma backup_name_inj: "backup_name p a = backup_name p b \<Longrightarrow> a = b"
  by (simp add: backup_name_def)

lemma newest_first_of_increasing:
  assumes inc: "sorted_wrt (<) (map (st_mtime \<circ> snd) xs)"
    and perm: "mset ys = mset xs"
  shows "sorted_newest_first ys = rev xs"
  unfolding sorted_newest_first_def
proof (rule sort_key_inj_key_eq)
  show "mset ys = mset (rev xs)" using perm by simp
next
  from inc have "distinct (map (st_mtime \<circ> snd) xs)"
    using strict_sorted_iff by blast
  then have "inj_on (st_mtime \<circ> snd) (set xs)" by (simp add: distinct_map)
  then have "inj_on (\<lambda>e. - st_mtime (snd e)) (set xs)"
    by (auto simp: inj_on_def)
  moreover have "set ys = set xs" using perm by (metis set_mset_mset)
  ultimately show "inj_on (\<lambda>e. - st_mtime (snd e)) (set ys)" by simp
next
  from inc have "sorted_wrt (\<lambda>x y. st_mtime (snd x) < st_mtime (snd y)) xs"
    by (simp add: sorted_wrt_map)
  then have "sorted_wrt (\<lambda>x y. - st_mtime (snd y) \<le> - st_mtime (snd x)) xs"
    by (rule sorted_wrt_mono_rel [rotated]) simp
  then show "sorted (map (\<lambda>e. - st_mtime (snd e)) (rev xs))"
    by (simp add: sorted_wrt_map sorted_wrt_rev)
qed

lemma filter_names_take:
  "distinct (map fst xs) \<Longrightarrow> filter (\<lambda>e. fst e \<notin> set (map fst (take m xs))) xs = drop m xs"
proof (induction xs arbitrary: m)
  case Nil
  then show ?case by simp
next
  case (Cons x xs)
  show ?case
  proof (cases m)
    case 0
    then show ?thesis by simp
  next
    case (Suc k)
    from Cons.prems have nx: "fst x \<notin> set (map fst xs)" and dx: "distinct (map fst xs)" by simp_all
    have "filter (\<lambda>e. fst e \<notin> set (map fst (take m (x # xs)))) (x # xs)
            = filter (\<lambda>e. fst e \<noteq> fst x \<and> fst e \<notin> set (map fst (take k xs))) xs"
      using Suc by simp
    also have "\<dots> = filter (\<lambda>e. fst e \<notin> set (map fst (take k xs))) xs"
    proof (rule filter_cong [OF refl])
      fix e assume "e \<in> set xs"
      then have "fst e \<in> set (map fst xs)" by simp
      with nx have "fst e \<noteq> fst x" by metis
      then show "(fst e \<noteq> fst x \<and> fst e \<notin> set (map fst (take k xs)))
                  = (fst e \<notin> set (map fst (take k xs)))" by simp
    qed
    also have "\<dots> = drop k xs" using Cons.IH [OF dx] .
    finally show ?thesis using Suc by simp
  qed
qed

lemma drop_window:
  "drop (length (drop (length cs - 5) cs @ [c]) - 5) (drop (length cs - 5) cs @ [c])
     = drop (length (cs @ [c]) - 5) (cs @ [c])"
proof (cases "length cs < 5")
  case True
  then show ?thesis by simp
next
  case False
  then have a: "Suc (length cs - 5) = length cs - 4" by arith
  from False have b: "length (drop (length cs - 5) cs) = 5" by simp
  have "drop (length (drop (length cs - 5) cs @ [c]) - 5) (drop (length cs - 5) cs @ [c])
          = drop 1 (drop (length cs - 5) cs @ [c])"
    using b by simp
  also have "\<dots> = drop (Suc (length cs - 5)) cs @ [c]"
    using b by (simp add: drop_Suc tl_drop)
  also have "\<dots> = drop (length (cs @ [c]) - 5) (cs @ [c])"
    using False a by simp
  finally show ?thesis .
qed


lemma matching_append: "matching os p (a @ b) = matching os p a @ matching os p b"
  by (simp add: matching_def)

lemma matching_names: "e \<in> set d \<Longrightarrow> fnmatch os (fst e) (stem p @ [95, 42]) \<Longrightarrow> e \<in> set (matching os p d)"
  by (simp add: matching_def)

lemma backup_call_step:
  assumes perm: "\<forall>d. mset (scandir os d) = mset d"
    and name_ok: "\<forall>ts. fnmatch os (backup_name p ts) (stem p @ [95, 42])"
    and M: "matching os p d = map (backup_entry p) L"
    and dist: "distinct (map fst (L @ [c]))"
    and inc: "sorted_wrt (<) (map (st_mtime \<circ> snd) (L @ [c]))"
  shows "matching os p (backup_call os p d c)
           = map (backup_entry p) (drop (length (L @ [c]) - 5) (L @ [c]))"
proof -
  let ?name = "backup_name p (fst c)"
  let ?E = "map (backup_entry p) (L @ [c])"
  let ?k = "length (L @ [c]) - 5"
  have fresh: "?name \<notin> set (map fst d)"
  proof
    assume "?name \<in> set (map fst d)"
    then obtain g where g: "(?name, g) \<in> set d" by auto
    with name_ok have "(?name, g) \<in> set (matching os p d)"
      by (intro matching_names) simp_all
    with M obtain c' where c': "c' \<in> set L" "backup_entry p c' = (?name, g)" by auto
    then have "backup_name p (fst c') = backup_name p (fst c)" by (simp add: backup_entry_def)
    then have "fst c' = fst c" by (rule backup_name_inj)
    moreover from c'(1) have "fst c' \<in> set (map fst L)" by simp
    ultimately have "fst c \<in> set (map fst L)" by simp
    with dist show False by simp
  qed
  have d1: "copy2 d ?name (snd c) = d @ [(?name, snd c)]"
    using fresh by (rule copy2_new)
  have m1: "matching os p (d @ [(?name, snd c)]) = ?E"
    using M name_ok by (simp add: matching_append) (simp add: matching_def backup_entry_def)
  have incE: "sorted_wrt (<) (map (st_mtime \<circ> snd) ?E)"
    using inc by (simp add: backup_entry_def comp_def)
  have permE: "mset (glob os (d @ [(?name, snd c)]) (stem p @ [95, 42])) = mset ?E"
  proof -
    have "mset (glob os (d @ [(?name, snd c)]) (stem p @ [95, 42]))
            = filter_mset (\<lambda>e. fnmatch os (fst e) (stem p @ [95, 42]))
                (mset (scandir os (d @ [(?name, snd c)])))"
      by (simp add: glob_def)
    also have "\<dots> = filter_mset (\<lambda>e. fnmatch os (fst e) (stem p @ [95, 42]))
                (mset (d @ [(?name, snd c)]))"
      using perm by simp
    also have "\<dots> = mset (matching os p (d @ [(?name, snd c)]))"
      by (simp add: matching_def)
    finally show ?thesis using m1 by simp
  qed
  have sorted: "sorted_newest_first (glob os (d @ [(?name, snd c)]) (stem p @ [95, 42])) = rev ?E"
    using incE permE by (rule newest_first_of_increasing)
  have lenE: "length ?E = length (L @ [c])" by (simp only: length_map)
  have old: "map fst (drop 5 (rev ?E)) = rev (map fst (take ?k ?E))"
  proof -
    have "map fst (drop 5 (rev ?E)) = map fst (rev (take (length ?E - 5) ?E))"
      by (simp only: drop_rev)
    also have "\<dots> = rev (map fst (take (length ?E - 5) ?E))"
      by (simp only: rev_map)
    finally show ?thesis by (simp only: lenE)
  qed
  have distE: "distinct (map fst ?E)"
  proof -
    have "map fst ?E = map (backup_name p) (map fst (L @ [c]))"
      by (simp add: backup_entry_def comp_def)
    moreover have "inj_on (backup_name p) (set (map fst (L @ [c])))"
      by (auto simp: inj_on_def dest: backup_name_inj)
    ultimately show ?thesis using dist by (simp only: distinct_map)
  qed
  have bc: "backup_call os p d c = cleanup_old_backups os (copy2 d ?name (snd c)) (stem p) 5"
    by (simp add: backup_call_def create_backup_def Let_def)
  have cl: "cleanup_old_backups os (d @ [(?name, snd c)]) (stem p) 5
          = filter (\<lambda>e. fst e \<notin> set (map fst (drop 5 (rev ?E)))) (d @ [(?name, snd c)])"
    unfolding cleanup_old_backups_def Let_def sorted foldl_unlink by (rule refl)
  have "backup_call os p d c
          = filter (\<lambda>e. fst e \<notin> set (map fst (take ?k ?E))) (d @ [(?name, snd c)])"
    unfolding bc d1 cl old by (simp only: set_rev)
  then have "matching os p (backup_call os p d c)
          = filter (\<lambda>e. fst e \<notin> set (map fst (take ?k ?E))) (matching os p (d @ [(?name, snd c)]))"
    by (simp add: matching_def conj_commute)
  also have "\<dots> = drop ?k ?E"
    unfolding m1 using distE by (rule filter_names_take)
  finally show ?thesis by (simp add: drop_map)
qed

lemma backup_calls_matching:
  assumes perm: "\<forall>d. mset (scandir os d) = mset d"
    and name_ok: "\<forall>ts. fnmatch os (backup_name p ts) (stem p @ [95, 42])"
    and empty: "matching os p d0 = []"
  shows "distinct (map fst cs) \<Longrightarrow> sorted_wrt (<) (map (st_mtime \<circ> snd) cs)
     \<Longrightarrow> matching os p (backup_calls os p d0 cs)
           = map (backup_entry p) (drop (length cs - 5) cs)"
proof (induction cs rule: rev_induct)
  case Nil
  then show ?case using empty by (simp add: backup_calls_def)
next
  case (snoc c cs)
  let ?L = "drop (length cs - 5) cs"
  from snoc.prems have dcs: "distinct (map fst cs)"
    and scs: "sorted_wrt (<) (map (st_mtime \<circ> snd) cs)"
    by (simp_all add: sorted_wrt_append comp_def)
  have IH: "matching os p (backup_calls os p d0 cs) = map (backup_entry p) ?L"
    using snoc.IH [OF dcs scs] .
  have sub: "set ?L \<subseteq> set cs" by (rule set_drop_subset)
  have dist: "distinct (map fst (?L @ [c]))"
  proof -
    have "distinct (map fst ?L)" using dcs by (simp add: distinct_drop flip: drop_map)
    moreover have "fst c \<notin> set (map fst ?L)" using snoc.prems(1) sub by auto
    ultimately show ?thesis by simp
  qed
  have inc: "sorted_wrt (<) (map (st_mtime \<circ> snd) (?L @ [c]))"
  proof -
    have "sorted_wrt (<) (map (st_mtime \<circ> snd) ?L)"
      using scs by (simp add: sorted_wrt_drop flip: drop_map)
    moreover have "\<forall>x \<in> set ?L. st_mtime (snd x) < st_mtime (snd c)"
      using snoc.prems(2) sub by (auto simp: sorted_wrt_append comp_def)
    ultimately show ?thesis by (simp add: sorted_wrt_append)
  qed
  have "matching os p (backup_calls os p d0 (cs @ [c]))
          = matching os p (backup_call os p (backup_calls os p d0 cs) c)"
    by (simp add: backup_calls_def)
  also have "\<dots> = map (backup_entry p) (drop (length (?L @ [c]) - 5) (?L @ [c]))"
    using perm name_ok IH dist inc by (rule backup_call_step)
  also have "\<dots> = map (backup_entry p) (drop (length (cs @ [c]) - 5) (cs @ [c]))"
    by (simp only: drop_window)
  finally show ?case .
qed

lemma startswith_append: "startswith (a @ b) a"
  by (induction a) simp_all

lemma prefix_match_backup_name:
  "prefix_match (backup_name p ts) (stem p @ [95, 42])"
proof -
  have "butlast (stem p @ [95, 42]) = stem p @ [95]" by (simp add: butlast_append)
  moreover have "backup_name p ts = (stem p @ [95]) @ ts @ suffix p" by (simp add: backup_name_def)
  ultimately show ?thesis by (simp only: prefix_match_def startswith_append)
qed

lemma create_backup_unfold:
  "create_backup os d p (Some f) ts =
     (filter (\<lambda>e. fst e \<notin> set (map fst (drop 5 (sorted_newest_first
                (glob os (copy2 d (backup_name p ts) f) (stem p @ [95, 42]))))))
        (copy2 d (backup_name p ts) f),
      Some (backup_name p ts))"
  by (simp add: create_backup_def cleanup_old_backups_def Let_def foldl_unlink)

text \<open>
  Claim C9, amended. Each \<open>create_backup\<close> of an existing file copies it, with its
  modification time, to the name \<open>stem_stamp.suffix\<close> and then deletes every entry
  matching \<open>stem_*\<close> beyond the 5 newest by modification time. Starting from a directory
  with no entry matching \<open>stem_*\<close>, after \<open>N\<close> calls for the file whose time stamps are
  pairwise distinct and at which the modification time of the file has strictly grown from
  call to call, the entries matching \<open>stem_*\<close> are the backups of the last \<open>min N 5\<close> calls:
  for \<open>N > 5\<close> exactly 5, the 5 most recently created, and the listing restricted to them
  shows them newest first. This holds for every order in which the platform scans the
  directory, for a pattern match under which \<open>stem_*\<close> matches the names created.
\<close>

theorem backups_pruned:
  assumes perm: "\<forall>d. mset (scandir os d) = mset d"
    and name_ok: "\<forall>ts. fnmatch os (backup_name p ts) (stem p @ [95, 42])"
    and empty: "matching os p d0 = []"
    and dist: "distinct (map fst cs)"
    and inc: "sorted_wrt (<) (map (st_mtime \<circ> snd) cs)"
  shows "matching os p (backup_calls os p d0 cs)
           = map (backup_entry p) (drop (length cs - 5) cs)
       \<and> (5 < length cs \<longrightarrow> length (matching os p (backup_calls os p d0 cs)) = 5)
       \<and> ((\<forall>n. fnmatch os n [42])
            \<longrightarrow> matching os p (list_backups os (backup_calls os p d0 cs))
                = rev (map (backup_entry p) (drop (length cs - 5) cs)))
       \<and> create_backup os d p (Some f) ts =
           (filter (\<lambda>e. fst e \<notin> set (map fst (drop 5 (sorted_newest_first
                      (glob os (copy2 d (backup_name p ts) f) (stem p @ [95, 42]))))))
              (copy2 d (backup_name p ts) f),
            Some (backup_name p ts))"
proof -
  let ?d = "backup_calls os p d0 cs"
  let ?E = "map (backup_entry p) (drop (length cs - 5) cs)"
  have m: "matching os p ?d = ?E"
    using perm name_ok empty dist inc by (rule backup_calls_matching)
  have l: "5 < length cs \<longrightarrow> length (matching os p ?d) = 5"
    unfolding m by simp
  have ls: "(\<forall>n. fnmatch os n [42]) \<longrightarrow> matching os p (list_backups os ?d) = rev ?E"
  proof
    assume star: "\<forall>n. fnmatch os n [42]"
    then have g: "glob os ?d [42] = scandir os ?d" by (simp add: glob_def)
    have "matching os p (list_backups os ?d)
            = sorted_newest_first (matching os p (scandir os ?d))"
      by (simp add: list_backups_def g sorted_newest_first_def matching_def filter_sort)
    also have "\<dots> = rev ?E"
    proof (rule newest_first_of_increasing)
      have "sorted_wrt (<) (map (st_mtime \<circ> snd) (drop (length cs - 5) cs))"
        using inc by (simp add: sorted_wrt_drop flip: drop_map)
      then show "sorted_wrt (<) (map (st_mtime \<circ> snd) ?E)"
        by (simp add: backup_entry_def comp_def)
    next
      have "mset (matching os p (scandir os ?d))
              = filter_mset (\<lambda>e. fnmatch os (fst e) (stem p @ [95, 42])) (mset (scandir os ?d))"
        by (simp add: matching_def)
      also have "\<dots> = mset (matching os p ?d)"
        using perm by (simp add: matching_def)
      finally show "mset (matching os p (scandir os ?d)) = mset ?E" by (simp only: m)
    qed
    finally show "matching os p (list_backups os ?d) = rev ?E" .
  qed
  show ?thesis
    by (intro conjI) (rule m, rule l, rule ls, rule create_backup_unfold)
qed

theorem backups_pruned_witness:
  "(\<forall>d. mset (scandir plain_pathlib d) = mset d)
   \<and> (\<forall>ts. fnmatch plain_pathlib (backup_name global_ini ts) (stem global_ini @ [95, 42]))
   \<and> matching plain_pathlib global_ini [] = []
   \<and> distinct (map fst seven_calls)
   \<and> sorted_wrt (<) (map (st_mtime \<circ> snd) seven_calls)
   \<and> 5 < length seven_calls
   \<and> map fst (matching plain_pathlib global_ini (backup_calls plain_pathlib global_ini [] seven_calls))
       = [str ''global_20240101_120003.ini'', str ''global_20240101_120004.ini'',
          str ''global_20240101_120005.ini'', str ''global_20240101_120006.ini'',
          str ''global_20240101_120007.ini'']
   \<and> length (matching plain_pathlib global_ini
               (backup_calls plain_pathlib global_ini [] seven_calls)) = 5"
proof -
  have h1: "\<forall>d. mset (scandir plain_pathlib d) = mset d" by (simp add: plain_pathlib_def)
  have h2: "\<forall>ts. fnmatch plain_pathlib (backup_name global_ini ts) (stem global_ini @ [95, 42])"
    by (simp add: plain_pathlib_def prefix_match_backup_name)
  have h3: "matching plain_pathlib global_ini [] = []" by (simp add: matching_def)
  have h4: "distinct (map fst seven_calls)" by (simp add: seven_calls_def stamp_def)
  have h5: "sorted_wrt (<) (map (st_mtime \<circ> snd) seven_calls)"
    by (simp add: seven_calls_def file_at_def)
  have h6: "5 < length seven_calls" by (simp add: seven_calls_def)
  from backups_pruned [OF h1 h2 h3 h4 h5] h1 h2 h3 h4 h5 h6 show ?thesis
    by (simp add: seven_calls_def backup_entry_def backup_name_def global_ini_def stamp_def
        str_def)
qed

text \<open>
  The claim as stated, for every \<open>N > 5\<close> calls, fails: six calls within one second leave
  one backup, since they share a name; when the file at the sixth call is older than at the
  calls before (the file was replaced by an older copy), the backup just made is the one
  deleted; and six backups of an unchanged file share their modification time, so that
  with a scan in the order of creation the backup just made is again the one deleted.
\<close>

theorem backups_pruned_counterexample:
  "map fst (backup_calls plain_pathlib global_ini []
      [(stamp 1, file_at 10), (stamp 1, file_at 20), (stamp 1, file_at 30),
       (stamp 1, file_at 40), (stamp 1, file_at 50), (stamp 1, file_at 60)])
     = [str ''global_20240101_120001.ini'']
   \<and> map fst (backup_calls plain_pathlib global_ini []
      [(stamp 1, file_at 10), (stamp 2, file_at 20), (stamp 3, file_at 30),
       (stamp 4, file_at 40), (stamp 5, file_at 50), (stamp 6, file_at 5)])
     = [str ''global_20240101_120001.ini'', str ''global_20240101_120002.ini'',
        str ''global_20240101_120003.ini'', str ''global_20240101_120004.ini'',
        str ''global_20240101_120005.ini'']
   \<and> map fst (backup_calls plain_pathlib global_ini []
      [(stamp 1, file_at 10), (stamp 2, file_at 10), (stamp 3, file_at 10),
       (stamp 4, file_at 10), (stamp 5, file_at 10), (stamp 6, file_at 10)])
     = [str ''global_20240101_120001.ini'', str ''global_20240101_120002.ini'',
        str ''global_20240101_120003.ini'', str ''global_20240101_120004.ini'',
        str ''global_20240101_120005.ini'']"
  by (simp add: backup_calls_def backup_call_def create_backup_unfold glob_def
      sorted_newest_first_def plain_pathlib_def prefix_match_def backup_name_def
      global_ini_def stamp_def file_at_def str_def)

end
